theory Spec2Isabelle
  imports Complex_Main
begin

section \<open>Configuration\<close>

text \<open>
  The repository holds three scripts with the same control flow; they differ in the
  subject line, in the body of the email and in the wording of one notice. The model
  follows \<^verbatim>\<open>send.ts\<close>.

  The script reads its settings once at start-up. The two that influence
  the behaviour studied here are the sender address (environment variable
  \<^verbatim>\<open>FROM_EMAIL\<close>) and the command line flag \<^verbatim>\<open>--dry-run\<close>. They are gathered in a
  record that every function receives. Batch size and delay are literal constants.
\<close>

record config =
  FROM_EMAIL :: string
  DRY_RUN :: bool

definition BATCH_SIZE :: nat where
  "BATCH_SIZE = 100"

definition DELAY_BETWEEN_BATCHES_MS :: nat where
  "DELAY_BETWEEN_BATCHES_MS = 1000"

definition newline :: char where
  "newline = CHR 0x0A"

section \<open>Email template\<close>

text \<open>
  The object literal returned by \<^verbatim>\<open>buildEmail\<close>. The body is a template literal without
  interpolation; it is kept line by line, every line preceded by the line break that
  separates it from the previous one (the literal opens with a line break and closes
  after four blanks).
\<close>

record message =
  msg_from :: string
  msg_to :: string
  msg_subject :: string
  msg_html :: string

definition html_lines :: "string list" where
  \<open>html_lines =
    [
     ''      <div style="font-family: sans-serif; max-width: 600px; margin: 0 auto; padding: 40px 20px; line-height: 1.7; color: #333;">'',
     ''        <p>hey sup! you might remember me from sprint.dev or such. i'm emailing you with an invite to the invite-only discord for people who have gone to hackathons or shipped projects.</p>'',
     ''        <p>btw if you are receiving this email, at some point i have personally reviewed your profile!</p>'',
     ''        <p>this link is only for you. do not share, as we are keeping the quality of the discord members high (unless you are referring someone actively building projects)</p>'',
     ''        <p>if you want to share with someone who's actively building, here's the link as text: <a href="https://discord.gg/5sdGUP4pG5">https://discord.gg/5sdGUP4pG5</a></p>'',
     ''        <a href="https://discord.gg/5sdGUP4pG5"'',
     ''           style="display: inline-block; background: #5865F2; color: white; padding: 14px 28px;'',
     ''                  border-radius: 8px; text-decoration: none; font-weight: bold; font-size: 16px; margin: 8px 0 16px;">'',
     ''          join the discord'',
     ''        </a>'',
     ''        <p>okay bai. p.s. there are founders of companies you know in the discord which you may see around</p>'',
     ''      </div>'',
     ''    ''
    ]\<close>

definition html_template :: string where
  "html_template = concat (map (\<lambda>l. newline # l) html_lines)"

definition buildEmail :: "config \<Rightarrow> string \<Rightarrow> message" where
  "buildEmail cfg to =
     \<lparr> msg_from = FROM_EMAIL cfg,
       msg_to = to,
       msg_subject = ''hi from jia :3'',
       msg_html = html_template \<rparr>"

section \<open>Rendering numbers\<close>

text \<open>
  Template literals interpolate numbers (\<^verbatim>\<open>${page}\<close>, \<^verbatim>\<open>${emails.length}\<close>, ...). For the
  non-negative integers that occur here JavaScript prints the decimal digits without
  leading zeros.
\<close>

definition digit_char :: "nat \<Rightarrow> char" where
  "digit_char d = ''0123456789'' ! d"

function show_nat :: "nat \<Rightarrow> string" where
  "show_nat n = (if n < 10 then [digit_char n] else show_nat (n div 10) @ [digit_char (n mod 10)])"
  by pat_completeness auto
termination
  by (relation "measure id") auto

declare show_nat.simps [simp del]

section \<open>The outside world\<close>

text \<open>
  A value that is thrown. JavaScript lets a promise reject with any value, and the catch
  clause of \<^verbatim>\<open>sendBatches\<close> declares \<^verbatim>\<open>err: any\<close>. The script only ever reads \<^verbatim>\<open>.message\<close>
  of such a value or hands it to \<^verbatim>\<open>console.error\<close>, so four kinds are told apart: an
  \<^verbatim>\<open>Error\<close> object with its message, \<^verbatim>\<open>null\<close>, \<^verbatim>\<open>undefined\<close>, and any other value (one
  that has no \<^verbatim>\<open>message\<close> property, such as a string or a number).
\<close>

datatype exn = Error string | Null | Undefined | Other

text \<open>
  Reading \<^verbatim>\<open>err.message\<close> inside a template literal: the message of an \<^verbatim>\<open>Error\<close>; the text
  \<^verbatim>\<open>undefined\<close> for a value without that property; and for \<^verbatim>\<open>null\<close> and \<^verbatim>\<open>undefined\<close> the
  property access itself throws a \<^verbatim>\<open>TypeError\<close> (an \<^verbatim>\<open>Error\<close> object; the message is the one
  Node.js gives).
\<close>

definition read_message :: "exn \<Rightarrow> exn + string" where
  "read_message x =
     (case x of
        Error m \<Rightarrow> Inr m
      | Other \<Rightarrow> Inr ''undefined''
      | Null \<Rightarrow> Inl (Error ''Cannot read properties of null (reading 'message')'')
      | Undefined \<Rightarrow> Inl (Error ''Cannot read properties of undefined (reading 'message')''))"

text \<open>
  The directory: \<^verbatim>\<open>supabase.auth.admin.listUsers({ page, perPage })\<close> resolves to
  \<^verbatim>\<open>{ data: { users }, error }\<close> or rejects. Of a user only \<^verbatim>\<open>email\<close> is read; it may be
  absent. \<^verbatim>\<open>users\<close> may be absent as well (the script tests \<^verbatim>\<open>!users\<close>).
\<close>

record user =
  user_id :: string
  email :: "string option"

datatype auth_error = AuthError (auth_message: string)

datatype list_result =
    Resolved "user list option" "auth_error option"
  | Rejected exn

type_synonym directory = "nat \<Rightarrow> nat \<Rightarrow> list_result"

text \<open>
  The sender: \<^verbatim>\<open>resend.batch.send(messages)\<close> resolves to \<^verbatim>\<open>{ data, error }\<close> (only
  \<^verbatim>\<open>error\<close> is read) or rejects. What the service answers is outside the script, so it is
  a parameter: the answer to the call number \<open>c\<close> (counting from 0) with a given payload.
\<close>

datatype send_error = ErrorResponse (error_message: string)

datatype send_result =
    Answered "send_error option"
  | Threw exn

type_synonym sender = "nat \<Rightarrow> message list \<Rightarrow> send_result"

text \<open>Everything the script does to the outside world, in the order it happens.\<close>

datatype event =
    ListUsers nat nat
  | BatchSend "message list"
  | Sleep nat
  | ConsoleLog string
  | ConsoleError string
  | ConsoleErrorWith string exn
  | Exit nat

section \<open>Fetching all emails\<close>

definition perPage :: nat where
  "perPage = 1000"

text \<open>The inner loop \<^verbatim>\<open>for (const user of users) if (user.email) emails.push(user.email)\<close>;
  an empty string is falsy.\<close>

fun push_emails :: "string list \<Rightarrow> user list \<Rightarrow> string list" where
  "push_emails emails [] = emails"
| "push_emails emails (u # us) =
     push_emails
       (case email u of
          None \<Rightarrow> emails
        | Some e \<Rightarrow> if e \<noteq> [] then emails @ [e] else emails)
       us"

text \<open>
  The \<^verbatim>\<open>while (true)\<close> loop of \<^verbatim>\<open>fetchAllEmails\<close>. Nothing bounds the number of pages, so
  the loop is a partial function: \<open>None\<close> means that it never returns. A returned pair
  holds the events so far and either the thrown value (\<open>Inl\<close>) or the emails (\<open>Inr\<close>).
\<close>

partial_function (option) fetch_loop ::
  "directory \<Rightarrow> nat \<Rightarrow> string list \<Rightarrow> event list \<Rightarrow> (event list \<times> (exn + string list)) option"
where
  "fetch_loop listUsers page emails tr =
     (let tr1 = tr @ [ListUsers page perPage] in
      case listUsers page perPage of
        Rejected x \<Rightarrow> Some (tr1, Inl x)
      | Resolved users err \<Rightarrow>
          (case err of
             Some e \<Rightarrow>
               Some (tr1, Inl (Error (''Supabase auth fetch failed at page '' @ show_nat page
                                        @ '': '' @ auth_message e)))
           | None \<Rightarrow>
               (case users of
                  None \<Rightarrow> Some (tr1, Inr emails)
                | Some us \<Rightarrow>
                    if length us = 0 then Some (tr1, Inr emails)
                    else
                      let emails1 = push_emails emails us;
                          tr2 = tr1 @ [ConsoleLog (''  Fetched '' @ show_nat (length emails1)
                                                    @ '' emails so far...'')];
                          page1 = page + 1
                      in if length us < perPage then Some (tr2, Inr emails1)
                         else fetch_loop listUsers page1 emails1 tr2)))"

declare fetch_loop.simps [code]

definition fetchAllEmails :: "directory \<Rightarrow> (event list \<times> (exn + string list)) option" where
  "fetchAllEmails listUsers = fetch_loop listUsers 1 [] []"

section \<open>Sending in batches\<close>

text \<open>\<^verbatim>\<open>xs.slice(a, b)\<close> for \<open>0 \<le> a \<le> b\<close>; indices beyond the end are clipped.\<close>

definition slice :: "'a list \<Rightarrow> nat \<Rightarrow> nat \<Rightarrow> 'a list" where
  "slice xs a b = take (b - a) (drop a xs)"

text \<open>\<^verbatim>\<open>Math.ceil(a / b)\<close> on natural numbers.\<close>

definition ceil_div :: "nat \<Rightarrow> nat \<Rightarrow> nat" where
  "ceil_div a b = (a + b - 1) div b"

text \<open>
  The state of \<^verbatim>\<open>sendBatches\<close>: the two counters it returns, the events so far, the number
  of calls made to the sender so far, and (for the statements about chunking) every value
  that \<^verbatim>\<open>batch\<close> has taken.
\<close>

record dispatch =
  sent :: nat
  failed :: nat
  calls :: nat
  batches :: "string list list"
  trace :: "event list"

definition batch_label :: "nat \<Rightarrow> nat \<Rightarrow> string" where
  "batch_label batchNum totalBatches = ''Batch '' @ show_nat batchNum @ ''/'' @ show_nat totalBatches"

text \<open>
  One pass through the body of the \<^verbatim>\<open>for\<close> loop, at offset \<open>i\<close>. The dry-run branch
  ends with \<^verbatim>\<open>continue\<close>, so it does not reach the pause. In the catch clause the argument
  of \<^verbatim>\<open>console.error\<close> reads \<^verbatim>\<open>err.message\<close> first: if that access throws, nothing is
  printed or counted, there is no pause, and the exception leaves \<^verbatim>\<open>sendBatches\<close>. A pass
  therefore either ends with a new state (\<open>Inr\<close>) or with the escaping exception and the
  events up to that point (\<open>Inl\<close>).
\<close>

type_synonym rejection = "exn \<times> event list"

definition iteration ::
  "config \<Rightarrow> sender \<Rightarrow> string list \<Rightarrow> nat \<Rightarrow> dispatch \<Rightarrow> rejection + dispatch" where
  "iteration cfg send emails i st =
     (let total = length emails;
          batch = slice emails i (i + BATCH_SIZE);
          batchNum = i div BATCH_SIZE + 1;
          totalBatches = ceil_div total BATCH_SIZE;
          st0 = st\<lparr>batches := batches st @ [batch]\<rparr>
      in
      if DRY_RUN cfg then
        Inr (st0\<lparr>trace := trace st0 @
                [ConsoleLog (''  [DRY RUN] '' @ batch_label batchNum totalBatches
                   @ '': would send to '' @ show_nat (length batch) @ '' recipients'')],
            sent := sent st0 + length batch\<rparr>)
      else
        let payload = map (buildEmail cfg) batch;
            st1 = st0\<lparr>trace := trace st0 @ [BatchSend payload], calls := calls st0 + 1\<rparr>;
            tried =
              (case send (calls st0) payload of
                 Answered (Some err) \<Rightarrow>
                   Inr (st1\<lparr>trace := trace st1 @
                          [ConsoleError (''  '' @ batch_label batchNum totalBatches
                             @ '' FAILED: '' @ error_message err)],
                       failed := failed st1 + length batch\<rparr>)
               | Answered None \<Rightarrow>
                   Inr (st1\<lparr>sent := sent st1 + length batch,
                       trace := trace st1 @
                          [ConsoleLog (''  '' @ batch_label batchNum totalBatches @ '' sent (''
                             @ show_nat (sent st1 + length batch) @ ''/'' @ show_nat total
                             @ '' done)'')]\<rparr>)
               | Threw x \<Rightarrow>
                   (case read_message x of
                      Inl t \<Rightarrow> Inl (t, trace st1)
                    | Inr m \<Rightarrow>
                        Inr (st1\<lparr>trace := trace st1 @
                               [ConsoleError (''  '' @ batch_label batchNum totalBatches
                                  @ '' ERROR: '' @ m)],
                            failed := failed st1 + length batch\<rparr>)))
        in case tried of
             Inl r \<Rightarrow> Inl r
           | Inr st2 \<Rightarrow>
               Inr (if i + BATCH_SIZE < total
                    then st2\<lparr>trace := trace st2 @ [Sleep DELAY_BETWEEN_BATCHES_MS]\<rparr>
                    else st2))"

function sendBatches_loop ::
  "config \<Rightarrow> sender \<Rightarrow> string list \<Rightarrow> nat \<Rightarrow> dispatch \<Rightarrow> rejection + dispatch" where
  "sendBatches_loop cfg send emails i st =
     (if i < length emails
      then (case iteration cfg send emails i st of
              Inl r \<Rightarrow> Inl r
            | Inr st' \<Rightarrow> sendBatches_loop cfg send emails (i + BATCH_SIZE) st')
      else Inr st)"
  by pat_completeness auto
termination
  by (relation "measure (\<lambda>(cfg, send, emails, i, st). length emails - i)")
     (auto simp: BATCH_SIZE_def)

declare sendBatches_loop.simps [simp del]

definition dispatch_init :: dispatch where
  "dispatch_init = \<lparr> sent = 0, failed = 0, calls = 0, batches = [], trace = [] \<rparr>"

text \<open>\<^verbatim>\<open>sendBatches\<close> returns the final state, of which the caller reads \<open>sent\<close> and \<open>failed\<close>,
  or rejects.\<close>

definition sendBatches :: "config \<Rightarrow> sender \<Rightarrow> string list \<Rightarrow> rejection + dispatch" where
  "sendBatches cfg send emails = sendBatches_loop cfg send emails 0 dispatch_init"

section \<open>The main program\<close>

text \<open>\<^verbatim>\<open>main\<close> returns normally (\<open>Inr ()\<close>) or lets the exception of the fetch or of the
  dispatch escape.\<close>

definition main :: "config \<Rightarrow> directory \<Rightarrow> sender \<Rightarrow> (event list \<times> (exn + unit)) option" where
  "main cfg listUsers send =
     (let tr0 = [ConsoleLog (if DRY_RUN cfg then ''=== DRY RUN MODE ==='' else ''=== SENDING EMAILS ===''),
                 ConsoleLog (newline # ''1. Fetching emails from Supabase...'')]
      in
      case fetchAllEmails listUsers of
        None \<Rightarrow> None
      | Some (ftr, Inl x) \<Rightarrow> Some (tr0 @ ftr, Inl x)
      | Some (ftr, Inr emails) \<Rightarrow>
          let tr1 = tr0 @ ftr @
                [ConsoleLog (''   Found '' @ show_nat (length emails) @ '' emails'' @ [newline])]
          in
          if length emails = 0 then
            Some (tr1 @ [ConsoleLog ''No emails found. Check your table/column names in the script.''],
                  Inr ())
          else
            let tr2 = tr1 @ [ConsoleLog (''2. Sending in batches of '' @ show_nat BATCH_SIZE
                                           @ ''...'' @ [newline])]
            in (case sendBatches cfg send emails of
                  Inl (x, dtr) \<Rightarrow> Some (tr2 @ dtr, Inl x)
                | Inr st \<Rightarrow>
                    Some (tr2 @ trace st @
                            [ConsoleLog (newline # ''=== DONE ===''),
                             ConsoleLog (''  Sent: '' @ show_nat (sent st)),
                             ConsoleLog (''  Failed: '' @ show_nat (failed st))],
                          Inr ())))"

text \<open>
  The last statement of the script: \<^verbatim>\<open>main().catch(...)\<close>. A rejection is logged and the
  process exits with status 1; otherwise the process ends by itself, with status 0.
\<close>

definition run :: "config \<Rightarrow> directory \<Rightarrow> sender \<Rightarrow> (event list \<times> nat) option" where
  "run cfg listUsers send =
     (case main cfg listUsers send of
        None \<Rightarrow> None
      | Some (tr, Inl x) \<Rightarrow> Some (tr @ [ConsoleErrorWith ''Fatal error:'' x, Exit 1], 1)
      | Some (tr, Inr u) \<Rightarrow> Some (tr, 0))"

section \<open>Vocabulary for the properties\<close>

subsection \<open>What a trace shows\<close>

text \<open>The payloads handed to the sender, the pauses taken and the pages requested, each in
  the order of occurrence.\<close>

definition send_calls :: "event list \<Rightarrow> message list list" where
  "send_calls tr = concat (map (\<lambda>e. case e of BatchSend ms \<Rightarrow> [ms] | _ \<Rightarrow> []) tr)"

definition pauses :: "event list \<Rightarrow> nat list" where
  "pauses tr = concat (map (\<lambda>e. case e of Sleep d \<Rightarrow> [d] | _ \<Rightarrow> []) tr)"

definition requests :: "event list \<Rightarrow> (nat \<times> nat) list" where
  "requests tr = concat (map (\<lambda>e. case e of ListUsers p n \<Rightarrow> [(p, n)] | _ \<Rightarrow> []) tr)"

text \<open>Console output apart, what is left of a trace: the requests, the calls to the sender,
  the pauses and the exit, in their order.\<close>

definition is_console :: "event \<Rightarrow> bool" where
  "is_console e =
     (case e of
        ConsoleLog s \<Rightarrow> True
      | ConsoleError s \<Rightarrow> True
      | ConsoleErrorWith s x \<Rightarrow> True
      | _ \<Rightarrow> False)"

definition actions :: "event list \<Rightarrow> event list" where
  "actions tr = filter (\<lambda>e. \<not> is_console e) tr"

text \<open>The lines of the final summary, and the test whether a trace reports a count.\<close>

definition summary_lines :: "nat \<Rightarrow> nat \<Rightarrow> event list" where
  "summary_lines s f =
     [ConsoleLog (newline # ''=== DONE ===''),
      ConsoleLog (''  Sent: '' @ show_nat s),
      ConsoleLog (''  Failed: '' @ show_nat f)]"

definition is_count_line :: "event \<Rightarrow> bool" where
  "is_count_line e =
     (case e of
        ConsoleLog s \<Rightarrow> take 8 s = ''  Sent: '' \<or> take 10 s = ''  Failed: ''
      | _ \<Rightarrow> False)"

definition reports_counts :: "event list \<Rightarrow> bool" where
  "reports_counts tr = list_ex is_count_line tr"

text \<open>The first two lines of every run, the line that announces the dispatch, and the two
  lines of a run that found nothing.\<close>

definition banner :: "config \<Rightarrow> event list" where
  "banner cfg =
     [ConsoleLog (if DRY_RUN cfg then ''=== DRY RUN MODE ==='' else ''=== SENDING EMAILS ===''),
      ConsoleLog (newline # ''1. Fetching emails from Supabase...'')]"

definition found_line :: "nat \<Rightarrow> event" where
  "found_line n = ConsoleLog (''   Found '' @ show_nat n @ '' emails'' @ [newline])"

definition sending_line :: event where
  "sending_line = ConsoleLog (''2. Sending in batches of '' @ show_nat BATCH_SIZE @ ''...'' @ [newline])"

definition no_emails_line :: event where
  "no_emails_line = ConsoleLog ''No emails found. Check your table/column names in the script.''"

subsection \<open>Chunks\<close>

text \<open>The \<open>k\<close>-th chunk of the recipients (counting from 0), the messages rendered for it,
  and the outcome of the loop after its first \<open>k\<close> passes: the state then, or the rejection
  that has ended the loop before.\<close>

definition chunk :: "string list \<Rightarrow> nat \<Rightarrow> string list" where
  "chunk emails k = slice emails (k * BATCH_SIZE) (k * BATCH_SIZE + BATCH_SIZE)"

definition payload :: "config \<Rightarrow> string list \<Rightarrow> nat \<Rightarrow> message list" where
  "payload cfg emails k = map (buildEmail cfg) (chunk emails k)"

primrec after_chunks :: "config \<Rightarrow> sender \<Rightarrow> string list \<Rightarrow> nat \<Rightarrow> rejection + dispatch" where
  "after_chunks cfg send emails 0 = Inr dispatch_init"
| "after_chunks cfg send emails (Suc k) =
     (case after_chunks cfg send emails k of
        Inl r \<Rightarrow> Inl r
      | Inr st \<Rightarrow> iteration cfg send emails (k * BATCH_SIZE) st)"

text \<open>
  What the sender did with a call: it turned the call down (an error in its answer, or
  any throw), and, among the throws, it threw a value whose message cannot be read, so
  that the catch clause itself throws.
\<close>

definition call_failed :: "send_result \<Rightarrow> bool" where
  "call_failed r =
     (case r of Answered None \<Rightarrow> False | Answered (Some err) \<Rightarrow> True | Threw x \<Rightarrow> True)"

definition handler_faults :: "send_result \<Rightarrow> bool" where
  "handler_faults r =
     (case r of
        Threw x \<Rightarrow> (case read_message x of Inl t \<Rightarrow> True | Inr m \<Rightarrow> False)
      | _ \<Rightarrow> False)"

definition chunk_failed :: "config \<Rightarrow> sender \<Rightarrow> string list \<Rightarrow> nat \<Rightarrow> bool" where
  "chunk_failed cfg send emails k = call_failed (send k (payload cfg emails k))"

text \<open>A dispatch runs to its end if it is a dry run or no call for one of its chunks is
  answered by a throw that the catch clause cannot handle.\<close>

definition no_fault_before :: "config \<Rightarrow> sender \<Rightarrow> string list \<Rightarrow> nat \<Rightarrow> bool" where
  "no_fault_before cfg send emails k =
     list_all (\<lambda>j. \<not> handler_faults (send j (payload cfg emails j))) [0..<k]"

definition completes :: "config \<Rightarrow> sender \<Rightarrow> string list \<Rightarrow> bool" where
  "completes cfg send emails =
     (DRY_RUN cfg \<or> no_fault_before cfg send emails (ceil_div (length emails) BATCH_SIZE))"

text \<open>The events of a dispatch, whichever way it ends, and the exception that left it.\<close>

definition events_of :: "rejection + dispatch \<Rightarrow> event list" where
  "events_of r = (case r of Inl (x, tr) \<Rightarrow> tr | Inr st \<Rightarrow> trace st)"

definition thrown_of :: "rejection + dispatch \<Rightarrow> exn option" where
  "thrown_of r = (case r of Inl (x, tr) \<Rightarrow> Some x | Inr st \<Rightarrow> None)"

text \<open>What the caller gets back, if anything: the pair of \<open>sent\<close> and \<open>failed\<close>. And the
  values that \<^verbatim>\<open>batch\<close> has taken in a dispatch that ran to its end.\<close>

definition counters_of :: "rejection + dispatch \<Rightarrow> (nat \<times> nat) option" where
  "counters_of r = (case r of Inl f \<Rightarrow> None | Inr st \<Rightarrow> Some (sent st, failed st))"

definition batches_of :: "rejection + dispatch \<Rightarrow> string list list option" where
  "batches_of r = (case r of Inl f \<Rightarrow> None | Inr st \<Rightarrow> Some (batches st))"

text \<open>The calls and pauses of a normal run that goes through \<open>k\<close> chunks out of \<open>n\<close>: each
  chunk is sent, and each but the last of the \<open>n\<close> is followed by a pause.\<close>

definition send_and_pause :: "config \<Rightarrow> string list \<Rightarrow> nat \<Rightarrow> nat \<Rightarrow> event list" where
  "send_and_pause cfg emails n k =
     BatchSend (payload cfg emails k)
       # (if Suc k < n then [Sleep DELAY_BETWEEN_BATCHES_MS] else [])"

subsection \<open>Pages\<close>

text \<open>
  A page that makes the fetcher go on (no error, at least \<open>perPage\<close> users) and a page that
  makes it stop normally (no error; no users, or fewer than \<open>perPage\<close>).
\<close>

definition page_full :: "list_result \<Rightarrow> bool" where
  "page_full r = (case r of Resolved (Some us) None \<Rightarrow> perPage \<le> length us | _ \<Rightarrow> False)"

definition page_last :: "list_result \<Rightarrow> bool" where
  "page_last r =
     (case r of
        Resolved None None \<Rightarrow> True
      | Resolved (Some us) None \<Rightarrow> length us < perPage
      | _ \<Rightarrow> False)"

text \<open>The non-empty email fields of a list of users, of page \<open>q\<close>, and of the pages
  \<open>1, \<dots>, n\<close>.\<close>

definition nonempty_emails :: "user list \<Rightarrow> string list" where
  "nonempty_emails us =
     concat (map (\<lambda>u. case email u of None \<Rightarrow> [] | Some e \<Rightarrow> if e = [] then [] else [e]) us)"

definition page_emails :: "directory \<Rightarrow> nat \<Rightarrow> string list" where
  "page_emails listUsers q =
     (case listUsers q perPage of Resolved (Some us) None \<Rightarrow> nonempty_emails us | _ \<Rightarrow> [])"

definition emails_upto :: "directory \<Rightarrow> nat \<Rightarrow> string list" where
  "emails_upto listUsers n = concat (map (page_emails listUsers) [1..<Suc n])"

text \<open>The events of the fetcher: for a page with users the request and the progress line,
  for a page without users the request alone.\<close>

definition fetched_line :: "nat \<Rightarrow> event" where
  "fetched_line n = ConsoleLog (''  Fetched '' @ show_nat n @ '' emails so far...'')"

definition page_events :: "directory \<Rightarrow> nat \<Rightarrow> event list" where
  "page_events listUsers q = [ListUsers q perPage, fetched_line (length (emails_upto listUsers q))]"

definition fetch_events :: "directory \<Rightarrow> nat \<Rightarrow> event list" where
  "fetch_events listUsers m = concat (map (page_events listUsers) [1..<Suc m])"

definition last_page_events :: "directory \<Rightarrow> nat \<Rightarrow> event list" where
  "last_page_events listUsers q =
     (case listUsers q perPage of
        Resolved (Some (u # us)) None \<Rightarrow> page_events listUsers q
      | _ \<Rightarrow> [ListUsers q perPage])"

definition is_fetch_event :: "event \<Rightarrow> bool" where
  "is_fetch_event e =
     (case e of
        ListUsers p n \<Rightarrow> True
      | ConsoleLog s \<Rightarrow> take 10 s = ''  Fetched ''
      | _ \<Rightarrow> False)"

definition fetch_error_message :: "nat \<Rightarrow> auth_error \<Rightarrow> string" where
  "fetch_error_message p e =
     ''Supabase auth fetch failed at page '' @ show_nat p @ '': '' @ auth_message e"

text \<open>Reading a decimal numeral back.\<close>

definition read_nat :: "string \<Rightarrow> nat" where
  "read_nat s = foldl (\<lambda>n c. 10 * n + (of_char c - 48)) 0 s"

text \<open>The page number that an error message of the fetcher names: the digits after the
  35 characters of its fixed opening, up to the colon.\<close>

definition page_of_message :: "string \<Rightarrow> nat" where
  "page_of_message msg = read_nat (takeWhile (\<lambda>c. c \<noteq> CHR '':'') (drop 35 msg))"

subsection \<open>Sample inputs\<close>

definition sample_config :: "bool \<Rightarrow> config" where
  "sample_config dry = \<lparr> FROM_EMAIL = ''jia@example.com'', DRY_RUN = dry \<rparr>"

definition sample_emails :: "nat \<Rightarrow> string list" where
  "sample_emails n = map (\<lambda>i. ''user'' @ show_nat i @ ''@example.com'') [0..<n]"

definition accepting :: sender where
  "accepting c ms = Answered None"

definition refusing_second :: sender where
  "refusing_second c ms =
     (if c = 1 then Answered (Some (ErrorResponse ''rate limit exceeded'')) else Answered None)"

definition rejecting :: sender where
  "rejecting c ms = Threw Null"

definition rejecting_second :: sender where
  "rejecting_second c ms = (if c = 1 then Threw Undefined else Answered None)"

definition throwing_second :: sender where
  "throwing_second c ms = (if c = 1 then Threw (Error ''socket hang up'') else Answered None)"

definition sample_user :: "nat \<Rightarrow> user" where
  "sample_user i =
     \<lparr> user_id = show_nat i,
       email = (if i mod 3 = 0 then None
                else if i mod 3 = 1 then Some []
                else Some (''user'' @ show_nat i @ ''@example.com'')) \<rparr>"

definition empty_directory :: directory where
  "empty_directory page n = Resolved (Some []) None"

definition tiny_directory :: directory where
  "tiny_directory page n = Resolved (Some (map sample_user [0..<3])) None"

definition small_directory :: directory where
  "small_directory page n =
     (if page = 1 then Resolved (Some (map sample_user [0..<1000])) None
      else if page = 2 then Resolved (Some (map sample_user [1000..<1003])) None
      else Resolved (Some []) None)"

definition broken_directory :: directory where
  "broken_directory page n =
     (if page = 3 then Resolved None (Some (AuthError ''upstream timeout''))
      else Resolved (Some (map sample_user [0..<1000])) None)"

definition endless_directory :: directory where
  "endless_directory page n = Resolved (Some (map sample_user [0..<1000])) None"

section \<open>Arithmetic of chunking\<close>

lemma lt_ceil_div: "0 < b \<Longrightarrow> k < ceil_div a b \<longleftrightarrow> k * b < a"
proof -
  assume b: "0 < b"
  have "k < ceil_div a b \<longleftrightarrow> Suc k \<le> (a + b - 1) div b"
    by (simp add: ceil_div_def Suc_le_eq)
  also have "\<dots> \<longleftrightarrow> Suc k * b \<le> a + b - 1"
    using b by (simp only: less_eq_div_iff_mult_less_eq)
  also have "\<dots> \<longleftrightarrow> k * b < a"
    using b by auto
  finally show ?thesis .
qed


lemma BATCH_SIZE_pos: "0 < BATCH_SIZE"
  by (simp add: BATCH_SIZE_def)

lemma chunks_cover: "length emails \<le> ceil_div (length emails) BATCH_SIZE * BATCH_SIZE"
  using lt_ceil_div [OF BATCH_SIZE_pos, of "ceil_div (length emails) BATCH_SIZE" "length emails"]
  by simp

lemma length_slice: "length (slice xs a b) = min (b - a) (length xs - a)"
  by (simp add: slice_def)

lemma length_chunk: "length (chunk emails k) = min BATCH_SIZE (length emails - k * BATCH_SIZE)"
  by (simp add: chunk_def length_slice)





section \<open>The dispatch loop, pass by pass\<close>

lemma send_calls_append [simp]: "send_calls (xs @ ys) = send_calls xs @ send_calls ys"
  by (simp add: send_calls_def)

lemma pauses_append [simp]: "pauses (xs @ ys) = pauses xs @ pauses ys"
  by (simp add: pauses_def)

lemma actions_append [simp]: "actions (xs @ ys) = actions xs @ actions ys"
  by (simp add: actions_def)

lemma console_line_silent:
  assumes "is_console e"
  shows "send_calls [e] = []" and "pauses [e] = []" and "actions [e] = []"
  using assms by (cases e; simp add: is_console_def send_calls_def pauses_def actions_def)+

lemma loop_from_chunk:
  "k \<le> ceil_div (length emails) BATCH_SIZE \<Longrightarrow>
   (case after_chunks cfg send emails k of
      Inl r \<Rightarrow> Inl r
    | Inr st \<Rightarrow> sendBatches_loop cfg send emails (k * BATCH_SIZE) st)
     = after_chunks cfg send emails (ceil_div (length emails) BATCH_SIZE)"
proof (induction "ceil_div (length emails) BATCH_SIZE - k" arbitrary: k)
  case 0
  then have k: "k = ceil_div (length emails) BATCH_SIZE" by simp
  have stop: "\<not> k * BATCH_SIZE < length emails"
    using lt_ceil_div [OF BATCH_SIZE_pos, of k "length emails"] k by simp
  have "\<And>st. sendBatches_loop cfg send emails (k * BATCH_SIZE) st = Inr st"
    using stop by (subst sendBatches_loop.simps) simp
  then show ?case
    unfolding k [symmetric] by (simp split: sum.splits)
next
  case (Suc d)
  then have lt: "k < ceil_div (length emails) BATCH_SIZE" by simp
  then have go: "k * BATCH_SIZE < length emails"
    using lt_ceil_div [OF BATCH_SIZE_pos, of k "length emails"] by simp
  have eq: "Suc k * BATCH_SIZE = k * BATCH_SIZE + BATCH_SIZE"
    by simp
  have step: "\<And>st. sendBatches_loop cfg send emails (k * BATCH_SIZE) st
      = (case iteration cfg send emails (k * BATCH_SIZE) st of
           Inl r \<Rightarrow> Inl r
         | Inr st' \<Rightarrow> sendBatches_loop cfg send emails (k * BATCH_SIZE + BATCH_SIZE) st')"
    using go by (subst sendBatches_loop.simps) simp
  have "(case after_chunks cfg send emails k of
      Inl r \<Rightarrow> Inl r
    | Inr st \<Rightarrow> sendBatches_loop cfg send emails (k * BATCH_SIZE) st)
      = (case after_chunks cfg send emails (Suc k) of
           Inl r \<Rightarrow> Inl r
         | Inr st' \<Rightarrow> sendBatches_loop cfg send emails (Suc k * BATCH_SIZE) st')"
  proof (cases "after_chunks cfg send emails k")
    case (Inl r)
    then show ?thesis by simp
  next
    case (Inr st)
    then show ?thesis
      unfolding eq by (simp add: step)
  qed
  also have "\<dots> = after_chunks cfg send emails (ceil_div (length emails) BATCH_SIZE)"
    using Suc.hyps(1) [of "Suc k"] Suc.hyps(2) lt by simp
  finally show ?case .
qed

lemma sendBatches_after:
  "sendBatches cfg send emails = after_chunks cfg send emails (ceil_div (length emails) BATCH_SIZE)"
  using loop_from_chunk [of 0 emails cfg send] by (simp add: sendBatches_def)

lemma after_Suc_Inr:
  assumes "after_chunks cfg send emails (Suc k) = Inr s'"
  obtains s where "after_chunks cfg send emails k = Inr s"
    and "iteration cfg send emails (k * BATCH_SIZE) s = Inr s'"
  using assms by (auto split: sum.splits)

lemma after_Inl_stays:
  "after_chunks cfg send emails k = Inl r \<Longrightarrow> k \<le> m \<Longrightarrow> after_chunks cfg send emails m = Inl r"
  by (induction m) (auto simp: le_Suc_eq)

subsection \<open>One pass\<close>

lemma iteration_batches:
  "iteration cfg send emails i st = Inr st' \<Longrightarrow>
   batches st' = batches st @ [slice emails i (i + BATCH_SIZE)]"
  by (auto simp: iteration_def Let_def split: send_result.splits option.splits sum.splits if_splits)

lemma iteration_all_or_nothing:
  "iteration cfg send emails i st = Inr st' \<Longrightarrow>
   (sent st' = sent st + length (slice emails i (i + BATCH_SIZE)) \<and> failed st' = failed st)
   \<or> (sent st' = sent st \<and> failed st' = failed st + length (slice emails i (i + BATCH_SIZE)))"
  by (auto simp: iteration_def Let_def split: send_result.splits option.splits sum.splits if_splits)

lemma iteration_dry:
  assumes "DRY_RUN cfg"
  shows "\<exists>st' line. iteration cfg send emails i st = Inr st'
           \<and> sent st' = sent st + length (slice emails i (i + BATCH_SIZE))
           \<and> failed st' = failed st \<and> calls st' = calls st
           \<and> is_console line \<and> trace st' = trace st @ [line]"
  using assms by (simp add: iteration_def Let_def is_console_def)

lemma iteration_dry_sender:
  "DRY_RUN cfg \<Longrightarrow> iteration cfg send emails i st = iteration cfg send' emails i st"
  by (simp add: iteration_def Let_def)

lemma iteration_live_ends:
  assumes "\<not> DRY_RUN cfg"
  shows "(\<exists>st'. iteration cfg send emails i st = Inr st')
     \<longleftrightarrow> \<not> handler_faults (send (calls st) (map (buildEmail cfg) (slice emails i (i + BATCH_SIZE))))"
  using assms
  by (auto simp: iteration_def Let_def handler_faults_def
        split: send_result.splits option.splits sum.splits)

lemma iteration_live:
  assumes "\<not> DRY_RUN cfg" and "iteration cfg send emails i st = Inr st'"
  shows "sent st' = sent st
           + (if call_failed (send (calls st) (map (buildEmail cfg) (slice emails i (i + BATCH_SIZE))))
              then 0 else length (slice emails i (i + BATCH_SIZE)))"
    and "failed st' = failed st
           + (if call_failed (send (calls st) (map (buildEmail cfg) (slice emails i (i + BATCH_SIZE))))
              then length (slice emails i (i + BATCH_SIZE)) else 0)"
    and "calls st' = Suc (calls st)"
    and "\<exists>line. is_console line
           \<and> trace st' = trace st
               @ [BatchSend (map (buildEmail cfg) (slice emails i (i + BATCH_SIZE))), line]
               @ (if i + BATCH_SIZE < length emails then [Sleep DELAY_BETWEEN_BATCHES_MS] else [])"
  using assms
  by (auto simp: iteration_def Let_def call_failed_def is_console_def
        split: send_result.splits option.splits sum.splits if_splits)

lemma iteration_live_fault:
  assumes "\<not> DRY_RUN cfg"
    and "send (calls st) (map (buildEmail cfg) (slice emails i (i + BATCH_SIZE))) = Threw x"
    and "read_message x = Inl t"
  shows "iteration cfg send emails i st
       = Inl (t, trace st @ [BatchSend (map (buildEmail cfg) (slice emails i (i + BATCH_SIZE)))])"
  using assms by (simp add: iteration_def Let_def)

subsection \<open>The first \<open>k\<close> passes\<close>

lemma pause_due:
  "k * BATCH_SIZE + BATCH_SIZE < length emails \<longleftrightarrow> Suc k < ceil_div (length emails) BATCH_SIZE"
  using lt_ceil_div [OF BATCH_SIZE_pos, of "Suc k" "length emails"] by (simp add: add.commute)

lemma after_batches:
  "after_chunks cfg send emails k = Inr s \<Longrightarrow> batches s = map (chunk emails) [0..<k]"
proof (induction k arbitrary: s)
  case 0
  then show ?case by (auto simp: dispatch_init_def)
next
  case (Suc k)
  from Suc.prems obtain s0 where s0: "after_chunks cfg send emails k = Inr s0"
    and it: "iteration cfg send emails (k * BATCH_SIZE) s0 = Inr s"
    by (rule after_Suc_Inr)
  show ?case
    using Suc.IH [OF s0] iteration_batches [OF it] by (simp add: chunk_def)
qed

lemma after_sum:
  "after_chunks cfg send emails k = Inr s \<Longrightarrow>
   sent s + failed s = min (k * BATCH_SIZE) (length emails)"
proof (induction k arbitrary: s)
  case 0
  then show ?case by (auto simp: dispatch_init_def)
next
  case (Suc k)
  from Suc.prems obtain s0 where s0: "after_chunks cfg send emails k = Inr s0"
    and it: "iteration cfg send emails (k * BATCH_SIZE) s0 = Inr s"
    by (rule after_Suc_Inr)
  have "sent s + failed s
      = sent s0 + failed s0 + length (slice emails (k * BATCH_SIZE) (k * BATCH_SIZE + BATCH_SIZE))"
    using iteration_all_or_nothing [OF it] by auto
  then show ?case
    using Suc.IH [OF s0] by (simp add: length_slice)
qed

lemma after_dry:
  assumes "DRY_RUN cfg"
  shows "\<exists>s. after_chunks cfg send emails k = Inr s \<and> failed s = 0 \<and> calls s = 0
           \<and> send_calls (trace s) = [] \<and> pauses (trace s) = [] \<and> actions (trace s) = []"
proof (induction k)
  case 0
  show ?case
    by (simp add: dispatch_init_def send_calls_def pauses_def actions_def)
next
  case (Suc k)
  then obtain s where s: "after_chunks cfg send emails k = Inr s" "failed s = 0" "calls s = 0"
    "send_calls (trace s) = []" "pauses (trace s) = []" "actions (trace s) = []"
    by blast
  from iteration_dry [OF assms, of send emails "k * BATCH_SIZE" s]
  obtain s' line where it: "iteration cfg send emails (k * BATCH_SIZE) s = Inr s'"
    "failed s' = failed s" "calls s' = calls s" "is_console line" "trace s' = trace s @ [line]"
    by blast
  have "after_chunks cfg send emails (Suc k) = Inr s'"
    by (simp add: s(1) it(1))
  moreover have "failed s' = 0" "calls s' = 0"
    by (simp_all add: it s)
  moreover have "send_calls (trace s') = []" "pauses (trace s') = []" "actions (trace s') = []"
    by (simp_all add: it(5) s console_line_silent [OF it(4)])
  ultimately show ?case by blast
qed

lemma after_dry_step:
  assumes "DRY_RUN cfg"
  shows "\<exists>s s' line. after_chunks cfg send emails k = Inr s
           \<and> after_chunks cfg send emails (Suc k) = Inr s'
           \<and> sent s' = sent s + length (chunk emails k) \<and> failed s' = failed s
           \<and> is_console line \<and> trace s' = trace s @ [line]"
proof -
  from after_dry [OF assms, of send emails k]
  obtain s where s: "after_chunks cfg send emails k = Inr s" by blast
  from iteration_dry [OF assms, of send emails "k * BATCH_SIZE" s]
  obtain s' line where it: "iteration cfg send emails (k * BATCH_SIZE) s = Inr s'"
    "sent s' = sent s + length (slice emails (k * BATCH_SIZE) (k * BATCH_SIZE + BATCH_SIZE))"
    "failed s' = failed s" "is_console line" "trace s' = trace s @ [line]"
    by blast
  have "after_chunks cfg send emails (Suc k) = Inr s'"
    by (simp add: s it(1))
  with s it show ?thesis
    unfolding chunk_def by blast
qed

lemma after_dry_sender:
  "DRY_RUN cfg \<Longrightarrow> after_chunks cfg send emails k = after_chunks cfg send' emails k"
  by (induction k)
     (simp_all add: iteration_dry_sender [of cfg send _ _ _ send'] cong: sum.case_cong)

lemma after_live_calls:
  "\<not> DRY_RUN cfg \<Longrightarrow> after_chunks cfg send emails k = Inr s \<Longrightarrow> calls s = k"
proof (induction k arbitrary: s)
  case 0
  then show ?case by (auto simp: dispatch_init_def)
next
  case (Suc k)
  from Suc.prems(2) obtain s0 where s0: "after_chunks cfg send emails k = Inr s0"
    and it: "iteration cfg send emails (k * BATCH_SIZE) s0 = Inr s"
    by (rule after_Suc_Inr)
  show ?case
    using Suc.IH [OF Suc.prems(1) s0] iteration_live(3) [OF Suc.prems(1) it] by simp
qed

lemma after_live_step:
  assumes "\<not> DRY_RUN cfg"
    and "after_chunks cfg send emails k = Inr s"
    and "after_chunks cfg send emails (Suc k) = Inr s'"
  shows "sent s' = sent s + (if chunk_failed cfg send emails k then 0 else length (chunk emails k))"
    and "failed s' = failed s + (if chunk_failed cfg send emails k then length (chunk emails k) else 0)"
    and "\<exists>line. is_console line
           \<and> trace s' = trace s @ [BatchSend (payload cfg emails k), line]
               @ (if Suc k < ceil_div (length emails) BATCH_SIZE
                  then [Sleep DELAY_BETWEEN_BATCHES_MS] else [])"
proof -
  have it: "iteration cfg send emails (k * BATCH_SIZE) s = Inr s'"
    using assms(2,3) by simp
  have c: "calls s = k"
    using assms(1,2) by (rule after_live_calls)
  show "sent s' = sent s + (if chunk_failed cfg send emails k then 0 else length (chunk emails k))"
    using iteration_live(1) [OF assms(1) it] by (simp add: c chunk_failed_def payload_def chunk_def)
  show "failed s' = failed s + (if chunk_failed cfg send emails k then length (chunk emails k) else 0)"
    using iteration_live(2) [OF assms(1) it] by (simp add: c chunk_failed_def payload_def chunk_def)
  show "\<exists>line. is_console line
           \<and> trace s' = trace s @ [BatchSend (payload cfg emails k), line]
               @ (if Suc k < ceil_div (length emails) BATCH_SIZE
                  then [Sleep DELAY_BETWEEN_BATCHES_MS] else [])"
    using iteration_live(4) [OF assms(1) it] by (simp add: payload_def chunk_def pause_due)
qed

lemma after_live_step_actions:
  assumes "\<not> DRY_RUN cfg"
    and "after_chunks cfg send emails k = Inr s"
    and "after_chunks cfg send emails (Suc k) = Inr s'"
  shows "actions (trace s')
       = actions (trace s) @ send_and_pause cfg emails (ceil_div (length emails) BATCH_SIZE) k"
    and "send_calls (trace s') = send_calls (trace s) @ [payload cfg emails k]"
    and "pauses (trace s')
       = pauses (trace s) @ (if Suc k < ceil_div (length emails) BATCH_SIZE
                             then [DELAY_BETWEEN_BATCHES_MS] else [])"
proof -
  from after_live_step(3) [OF assms] obtain line where line: "is_console line"
    and tr: "trace s' = trace s @ [BatchSend (payload cfg emails k), line]
               @ (if Suc k < ceil_div (length emails) BATCH_SIZE
                  then [Sleep DELAY_BETWEEN_BATCHES_MS] else [])"
    by blast
  have split: "[BatchSend (payload cfg emails k), line] = [BatchSend (payload cfg emails k)] @ [line]"
    by simp
  show "actions (trace s')
       = actions (trace s) @ send_and_pause cfg emails (ceil_div (length emails) BATCH_SIZE) k"
    unfolding tr split actions_append console_line_silent [OF line]
    by (simp add: actions_def is_console_def send_and_pause_def)
  show "send_calls (trace s') = send_calls (trace s) @ [payload cfg emails k]"
    unfolding tr split send_calls_append console_line_silent [OF line]
    by (simp add: send_calls_def)
  show "pauses (trace s')
       = pauses (trace s) @ (if Suc k < ceil_div (length emails) BATCH_SIZE
                             then [DELAY_BETWEEN_BATCHES_MS] else [])"
    unfolding tr split pauses_append console_line_silent [OF line]
    by (simp add: pauses_def)
qed

lemma after_live_sent:
  "\<not> DRY_RUN cfg \<Longrightarrow> after_chunks cfg send emails k = Inr s \<Longrightarrow>
   sent s = sum_list (map (\<lambda>j. if chunk_failed cfg send emails j then 0 else length (chunk emails j)) [0..<k])"
proof (induction k arbitrary: s)
  case 0
  then show ?case by (auto simp: dispatch_init_def)
next
  case (Suc k)
  from Suc.prems(2) obtain s0 where s0: "after_chunks cfg send emails k = Inr s0"
    by (rule after_Suc_Inr)
  show ?case
    using Suc.IH [OF Suc.prems(1) s0] after_live_step(1) [OF Suc.prems(1) s0 Suc.prems(2)] by simp
qed

lemma after_live_failed:
  "\<not> DRY_RUN cfg \<Longrightarrow> after_chunks cfg send emails k = Inr s \<Longrightarrow>
   failed s = sum_list (map (\<lambda>j. if chunk_failed cfg send emails j then length (chunk emails j) else 0) [0..<k])"
proof (induction k arbitrary: s)
  case 0
  then show ?case by (auto simp: dispatch_init_def)
next
  case (Suc k)
  from Suc.prems(2) obtain s0 where s0: "after_chunks cfg send emails k = Inr s0"
    by (rule after_Suc_Inr)
  show ?case
    using Suc.IH [OF Suc.prems(1) s0] after_live_step(2) [OF Suc.prems(1) s0 Suc.prems(2)] by simp
qed

lemma after_live_actions:
  "\<not> DRY_RUN cfg \<Longrightarrow> after_chunks cfg send emails k = Inr s \<Longrightarrow>
   actions (trace s)
     = concat (map (send_and_pause cfg emails (ceil_div (length emails) BATCH_SIZE)) [0..<k])"
proof (induction k arbitrary: s)
  case 0
  then show ?case by (auto simp: dispatch_init_def actions_def)
next
  case (Suc k)
  from Suc.prems(2) obtain s0 where s0: "after_chunks cfg send emails k = Inr s0"
    by (rule after_Suc_Inr)
  show ?case
    using Suc.IH [OF Suc.prems(1) s0] after_live_step_actions(1) [OF Suc.prems(1) s0 Suc.prems(2)]
    by simp
qed

lemma after_live_send_calls:
  "\<not> DRY_RUN cfg \<Longrightarrow> after_chunks cfg send emails k = Inr s \<Longrightarrow>
   send_calls (trace s) = map (payload cfg emails) [0..<k]"
proof (induction k arbitrary: s)
  case 0
  then show ?case by (auto simp: dispatch_init_def send_calls_def)
next
  case (Suc k)
  from Suc.prems(2) obtain s0 where s0: "after_chunks cfg send emails k = Inr s0"
    by (rule after_Suc_Inr)
  show ?case
    using Suc.IH [OF Suc.prems(1) s0] after_live_step_actions(2) [OF Suc.prems(1) s0 Suc.prems(2)]
    by simp
qed

lemma after_live_pauses:
  "\<not> DRY_RUN cfg \<Longrightarrow> after_chunks cfg send emails k = Inr s \<Longrightarrow>
   pauses (trace s)
     = replicate (min k (ceil_div (length emails) BATCH_SIZE - 1)) DELAY_BETWEEN_BATCHES_MS"
proof (induction k arbitrary: s)
  case 0
  then show ?case by (auto simp: dispatch_init_def pauses_def)
next
  case (Suc k)
  let ?n = "ceil_div (length emails) BATCH_SIZE"
  from Suc.prems(2) obtain s0 where s0: "after_chunks cfg send emails k = Inr s0"
    by (rule after_Suc_Inr)
  have "min (Suc k) (?n - 1) = min k (?n - 1) + (if Suc k < ?n then 1 else 0)"
    by auto
  then show ?case
    using Suc.IH [OF Suc.prems(1) s0] after_live_step_actions(3) [OF Suc.prems(1) s0 Suc.prems(2)]
    by (simp add: replicate_append_same)
qed

subsection \<open>Running to the end\<close>

lemma no_fault_before_Suc:
  "no_fault_before cfg send emails (Suc k)
     \<longleftrightarrow> no_fault_before cfg send emails k \<and> \<not> handler_faults (send k (payload cfg emails k))"
  by (simp add: no_fault_before_def)

lemma after_live_ends:
  assumes "\<not> DRY_RUN cfg"
  shows "(\<exists>s. after_chunks cfg send emails k = Inr s) \<longleftrightarrow> no_fault_before cfg send emails k"
proof (induction k)
  case 0
  show ?case by (simp add: no_fault_before_def)
next
  case (Suc k)
  show ?case
  proof (cases "after_chunks cfg send emails k")
    case (Inl r)
    then show ?thesis
      using Suc by (simp add: no_fault_before_Suc)
  next
    case (Inr s)
    have c: "calls s = k"
      using assms Inr by (rule after_live_calls)
    have "(\<exists>s'. after_chunks cfg send emails (Suc k) = Inr s')
        \<longleftrightarrow> \<not> handler_faults (send k (payload cfg emails k))"
      using iteration_live_ends [OF assms, of send emails "k * BATCH_SIZE" s]
      by (simp add: Inr c payload_def chunk_def)
    then show ?thesis
      using Suc Inr by (simp add: no_fault_before_Suc)
  qed
qed

lemma sendBatches_ends:
  "(\<exists>st. sendBatches cfg send emails = Inr st) \<longleftrightarrow> completes cfg send emails"
proof (cases "DRY_RUN cfg")
  case True
  then show ?thesis
    using after_dry [OF True, of send emails "ceil_div (length emails) BATCH_SIZE"]
    by (auto simp: sendBatches_after completes_def)
next
  case False
  then show ?thesis
    using after_live_ends [OF False, of send emails "ceil_div (length emails) BATCH_SIZE"]
    by (simp add: sendBatches_after completes_def)
qed

lemma after_live_fault:
  assumes "\<not> DRY_RUN cfg"
    and "after_chunks cfg send emails k = Inr s"
    and "send k (payload cfg emails k) = Threw x"
    and "read_message x = Inl t"
  shows "after_chunks cfg send emails (Suc k) = Inl (t, trace s @ [BatchSend (payload cfg emails k)])"
proof -
  have c: "calls s = k"
    using assms(1,2) by (rule after_live_calls)
  have thrown: "send (calls s) (map (buildEmail cfg)
      (slice emails (k * BATCH_SIZE) (k * BATCH_SIZE + BATCH_SIZE))) = Threw x"
    using assms(3) by (simp add: c payload_def chunk_def)
  have "iteration cfg send emails (k * BATCH_SIZE) s
      = Inl (t, trace s @ [BatchSend (map (buildEmail cfg)
               (slice emails (k * BATCH_SIZE) (k * BATCH_SIZE + BATCH_SIZE)))])"
    using assms(1) thrown assms(4) by (rule iteration_live_fault)
  then show ?thesis
    by (simp add: assms(2) payload_def chunk_def)
qed

lemma sendBatches_fault:
  assumes "\<not> DRY_RUN cfg"
    and "k < ceil_div (length emails) BATCH_SIZE"
    and "after_chunks cfg send emails k = Inr s"
    and "send k (payload cfg emails k) = Threw x"
    and "read_message x = Inl t"
  shows "sendBatches cfg send emails = Inl (t, trace s @ [BatchSend (payload cfg emails k)])"
proof -
  have "after_chunks cfg send emails (Suc k) = Inl (t, trace s @ [BatchSend (payload cfg emails k)])"
    using assms(1,3,4,5) by (rule after_live_fault)
  from after_Inl_stays [OF this, of "ceil_div (length emails) BATCH_SIZE"]
  have "after_chunks cfg send emails (ceil_div (length emails) BATCH_SIZE)
      = Inl (t, trace s @ [BatchSend (payload cfg emails k)])"
    using assms(2) by simp
  then show ?thesis
    by (simp only: sendBatches_after)
qed

lemma length_sample_emails: "length (sample_emails n) = n"
  by (simp add: sample_emails_def)

lemma sendBatches_Nil: "sendBatches cfg send [] = Inr dispatch_init"
  by (simp add: sendBatches_def sendBatches_loop.simps)

lemma failed_chunk_counted:
  assumes "\<not> DRY_RUN cfg"
    and "after_chunks cfg send emails k = Inr s"
    and "send k (payload cfg emails k) = Answered (Some err)
         \<or> (send k (payload cfg emails k) = Threw x \<and> read_message x = Inr m)"
  shows "\<exists>s'. after_chunks cfg send emails (Suc k) = Inr s'
           \<and> failed s' = failed s + length (chunk emails k) \<and> sent s' = sent s
           \<and> send_calls (trace s') = send_calls (trace s) @ [payload cfg emails k]"
proof -
  have ok: "\<not> handler_faults (send k (payload cfg emails k))"
    using assms(3) by (auto simp: handler_faults_def)
  have bad: "chunk_failed cfg send emails k"
    using assms(3) by (auto simp: chunk_failed_def call_failed_def)
  have c: "calls s = k"
    using assms(1,2) by (rule after_live_calls)
  from ok iteration_live_ends [OF assms(1), of send emails "k * BATCH_SIZE" s]
  obtain s' where "iteration cfg send emails (k * BATCH_SIZE) s = Inr s'"
    by (auto simp: c payload_def chunk_def)
  then have s': "after_chunks cfg send emails (Suc k) = Inr s'"
    by (simp add: assms(2))
  show ?thesis
    using s' bad after_live_step(1,2) [OF assms(1,2) s']
      after_live_step_actions(2) [OF assms(1,2) s']
    by simp
qed

lemma sample_completes:
  "completes (sample_config False) throwing_second emails"
  "completes (sample_config False) accepting emails"
  "completes (sample_config False) refusing_second emails"
  by (simp_all add: completes_def no_fault_before_def handler_faults_def read_message_def
        throwing_second_def accepting_def refusing_second_def list_all_iff)

lemma three_chunks: "ceil_div (length (sample_emails 250)) BATCH_SIZE = 3"
  by (simp add: length_sample_emails ceil_div_def BATCH_SIZE_def)

lemma upt_3: "[0..<3] = [0, 1, 2]"
  by (simp add: upt_rec)

section \<open>The batch dispatcher\<close>

text \<open>
  \<^bold>\<open>C1.\<close> For every recipient list: when \<^verbatim>\<open>sendBatches\<close> completes, the counters it returns
  add up to the number of recipients. It completes exactly if it is a dry run or no call
  is answered by a throw that the catch clause cannot handle. The loop makes one pass per
  chunk (its outcome is the outcome after \<open>\<lceil>L / 100\<rceil>\<close> passes), and a pass for chunk \<open>k\<close>
  that ends either adds the whole length of the chunk to \<open>sent\<close> and leaves \<open>failed\<close>
  alone, or adds the whole length to \<open>failed\<close> and leaves \<open>sent\<close> alone.
\<close>

theorem sendBatches_accounting:
  "(sendBatches cfg send emails = Inr st \<longrightarrow> sent st + failed st = length emails)
   \<and> ((\<exists>st. sendBatches cfg send emails = Inr st) \<longleftrightarrow> completes cfg send emails)
   \<and> sendBatches cfg send emails
       = after_chunks cfg send emails (ceil_div (length emails) BATCH_SIZE)
   \<and> (after_chunks cfg send emails k = Inr s \<and> after_chunks cfg send emails (Suc k) = Inr s'
        \<longrightarrow> (sent s' = sent s + length (chunk emails k) \<and> failed s' = failed s)
            \<or> (sent s' = sent s \<and> failed s' = failed s + length (chunk emails k)))"
proof -
  have total: "sendBatches cfg send emails = Inr st \<longrightarrow> sent st + failed st = length emails"
  proof
    assume "sendBatches cfg send emails = Inr st"
    then have "after_chunks cfg send emails (ceil_div (length emails) BATCH_SIZE) = Inr st"
      by (simp only: sendBatches_after)
    then have "sent st + failed st
        = min (ceil_div (length emails) BATCH_SIZE * BATCH_SIZE) (length emails)"
      by (rule after_sum)
    then show "sent st + failed st = length emails"
      using chunks_cover [of emails] by simp
  qed
  have step: "after_chunks cfg send emails k = Inr s \<and> after_chunks cfg send emails (Suc k) = Inr s'
        \<longrightarrow> (sent s' = sent s + length (chunk emails k) \<and> failed s' = failed s)
            \<or> (sent s' = sent s \<and> failed s' = failed s + length (chunk emails k))"
  proof
    assume "after_chunks cfg send emails k = Inr s \<and> after_chunks cfg send emails (Suc k) = Inr s'"
    then have "iteration cfg send emails (k * BATCH_SIZE) s = Inr s'"
      by clarsimp
    from iteration_all_or_nothing [OF this]
    show "(sent s' = sent s + length (chunk emails k) \<and> failed s' = failed s)
            \<or> (sent s' = sent s \<and> failed s' = failed s + length (chunk emails k))"
      by (simp add: chunk_def)
  qed
  show ?thesis
    using total sendBatches_ends [of cfg send emails] sendBatches_after [of cfg send emails] step
    by (intro conjI) assumption+
qed

theorem sendBatches_accounting_witness:
  "completes (sample_config False) throwing_second (sample_emails 250)
   \<and> counters_of (sendBatches (sample_config False) throwing_second (sample_emails 250))
       = Some (150, 100)"
proof -
  let ?cfg = "sample_config False" and ?E = "sample_emails 250"
  note inst = sendBatches_accounting [of ?cfg throwing_second ?E]
  note fin = sample_completes(1) [of ?E]
  have live: "\<not> DRY_RUN ?cfg"
    by (simp add: sample_config_def)
  from fin inst [THEN conjunct2, THEN conjunct1] obtain st
    where st: "sendBatches ?cfg throwing_second ?E = Inr st" by blast
  have sum: "sent st + failed st = 250"
    using inst [of st, THEN conjunct1] st by (simp add: length_sample_emails)
  have "after_chunks ?cfg throwing_second ?E 3 = Inr st"
    using st by (simp only: sendBatches_after three_chunks)
  from after_live_failed [OF live this]
  have "failed st = 100"
    by (simp add: upt_3 chunk_failed_def call_failed_def throwing_second_def length_chunk
          length_sample_emails BATCH_SIZE_def)
  with sum have "sent st = 150" "failed st = 100"
    by simp_all
  then have "counters_of (sendBatches ?cfg throwing_second ?E) = Some (150, 100)"
    by (simp add: st counters_of_def)
  with fin show ?thesis
    by (rule conjI)
qed



text \<open>
  \<^bold>\<open>C5.\<close> In dry-run mode \<^verbatim>\<open>sendBatches\<close> completes, whatever the sender would do, and it
  makes no call to the sender (no \<open>BatchSend\<close> event, call counter 0, and the outcome is the
  same whatever the sender would answer), \<open>failed\<close> ends at 0, every pass adds the length
  of its chunk to \<open>sent\<close>, and \<open>sent\<close> ends at the number of recipients.
\<close>

theorem sendBatches_dry_run:
  assumes "DRY_RUN cfg"
  shows "(\<exists>st. sendBatches cfg send emails = Inr st
            \<and> send_calls (trace st) = [] \<and> calls st = 0
            \<and> failed st = 0 \<and> sent st = length emails)
       \<and> sendBatches cfg send emails = sendBatches cfg send' emails
       \<and> (\<exists>s s'. after_chunks cfg send emails k = Inr s
            \<and> after_chunks cfg send emails (Suc k) = Inr s'
            \<and> sent s' = sent s + length (chunk emails k))"
proof -
  let ?n = "ceil_div (length emails) BATCH_SIZE"
  from after_dry [OF assms, of send emails ?n]
  obtain st where st: "after_chunks cfg send emails ?n = Inr st" "failed st = 0" "calls st = 0"
    "send_calls (trace st) = []"
    by blast
  have "sent st + failed st = min (?n * BATCH_SIZE) (length emails)"
    using st(1) by (rule after_sum)
  then have s: "sent st = length emails"
    using st(2) chunks_cover [of emails] by simp
  have a: "\<exists>st. sendBatches cfg send emails = Inr st
            \<and> send_calls (trace st) = [] \<and> calls st = 0
            \<and> failed st = 0 \<and> sent st = length emails"
    using st s by (auto simp: sendBatches_after)
  have b: "sendBatches cfg send emails = sendBatches cfg send' emails"
    by (simp only: sendBatches_after after_dry_sender [OF assms, of send emails _ send'])
  have c: "\<exists>s s'. after_chunks cfg send emails k = Inr s
            \<and> after_chunks cfg send emails (Suc k) = Inr s'
            \<and> sent s' = sent s + length (chunk emails k)"
    using after_dry_step [OF assms, of send emails k] by blast
  show ?thesis
    using a b c by (intro conjI) assumption+
qed

theorem sendBatches_dry_run_witness:
  "DRY_RUN (sample_config True)
   \<and> thrown_of (sendBatches (sample_config True) rejecting (sample_emails 250)) = None
   \<and> send_calls (events_of (sendBatches (sample_config True) rejecting (sample_emails 250))) = []
   \<and> counters_of (sendBatches (sample_config True) rejecting (sample_emails 250)) = Some (250, 0)"
proof -
  have dry: "DRY_RUN (sample_config True)"
    by (simp add: sample_config_def)
  from sendBatches_dry_run [OF dry, of rejecting "sample_emails 250" rejecting 0, THEN conjunct1]
  obtain st where "sendBatches (sample_config True) rejecting (sample_emails 250) = Inr st"
    "send_calls (trace st) = []" "failed st = 0" "sent st = length (sample_emails 250)"
    by blast
  with dry show ?thesis
    by (simp add: thrown_of_def events_of_def counters_of_def length_sample_emails)
qed

text \<open>
  \<^bold>\<open>C4: the code departs from the claim\<close> when the call for a chunk rejects with \<^verbatim>\<open>null\<close> or
  \<^verbatim>\<open>undefined\<close>. The catch clause is there to count the chunk as failed and go on, as it
  does for an error in the answer and for a thrown \<^verbatim>\<open>Error\<close> (lemma \<open>failed_chunk_counted\<close>);
  but it reads \<^verbatim>\<open>err.message\<close> before it counts, and on these two values that access
  throws. With 250 recipients and a sender that rejects its second call with \<^verbatim>\<open>undefined\<close>,
  \<^verbatim>\<open>sendBatches\<close> itself rejects with a \<^verbatim>\<open>TypeError\<close>: it returns no counters, chunk 1 is not
  counted as failed, and chunk 2 (the third of three) is never submitted.
\<close>

theorem sendBatches_nullish_rejection:
  "\<not> DRY_RUN (sample_config False)
   \<and> ceil_div (length (sample_emails 250)) BATCH_SIZE = 3
   \<and> rejecting_second 1 (payload (sample_config False) (sample_emails 250) 1) = Threw Undefined
   \<and> thrown_of (sendBatches (sample_config False) rejecting_second (sample_emails 250))
       = Some (Error ''Cannot read properties of undefined (reading 'message')'')
   \<and> counters_of (sendBatches (sample_config False) rejecting_second (sample_emails 250)) = None
   \<and> actions (events_of (sendBatches (sample_config False) rejecting_second (sample_emails 250)))
       = [BatchSend (payload (sample_config False) (sample_emails 250) 0),
          Sleep 1000,
          BatchSend (payload (sample_config False) (sample_emails 250) 1)]"
proof -
  let ?cfg = "sample_config False" and ?E = "sample_emails 250"
  have live: "\<not> DRY_RUN ?cfg"
    by (simp add: sample_config_def)
  have thrown: "rejecting_second 1 (payload ?cfg ?E 1) = Threw Undefined"
    by (simp add: rejecting_second_def)
  have unreadable: "read_message Undefined
      = Inl (Error ''Cannot read properties of undefined (reading 'message')'')"
    by (simp add: read_message_def)
  have "no_fault_before ?cfg rejecting_second ?E 1"
    by (simp add: no_fault_before_def handler_faults_def rejecting_second_def)
  with after_live_ends [OF live, of rejecting_second ?E 1]
  obtain s where s: "after_chunks ?cfg rejecting_second ?E 1 = Inr s"
    by blast
  have one: "(1::nat) < ceil_div (length ?E) BATCH_SIZE"
    by (simp add: three_chunks)
  have rej: "sendBatches ?cfg rejecting_second ?E
      = Inl (Error ''Cannot read properties of undefined (reading 'message')'',
             trace s @ [BatchSend (payload ?cfg ?E 1)])"
    using live one s thrown unreadable by (rule sendBatches_fault)
  have "actions (trace s) = concat (map (send_and_pause ?cfg ?E (ceil_div (length ?E) BATCH_SIZE)) [0..<1])"
    using live s by (rule after_live_actions)
  then have first: "actions (trace s) = [BatchSend (payload ?cfg ?E 0), Sleep 1000]"
    by (simp add: three_chunks send_and_pause_def DELAY_BETWEEN_BATCHES_MS_def)
  have a: "thrown_of (sendBatches ?cfg rejecting_second ?E)
      = Some (Error ''Cannot read properties of undefined (reading 'message')'')"
    by (simp add: rej thrown_of_def)
  have b: "counters_of (sendBatches ?cfg rejecting_second ?E) = None"
    by (simp add: rej counters_of_def)
  have c: "actions (events_of (sendBatches ?cfg rejecting_second ?E))
      = [BatchSend (payload ?cfg ?E 0), Sleep 1000, BatchSend (payload ?cfg ?E 1)]"
    by (simp add: rej events_of_def first) (simp add: actions_def is_console_def)
  show ?thesis
    using live three_chunks thrown a b c by (intro conjI) assumption+
qed

text \<open>
  \<^bold>\<open>C6 as stated fails\<close> in dry-run mode: the dry-run branch ends with \<^verbatim>\<open>continue\<close> and so
  never reaches the pause. For 250 recipients a dry run makes 3 batches and no pause at all.
\<close>

theorem sendBatches_dry_run_pauses_counterexample:
  "map_option length (batches_of (sendBatches (sample_config True) accepting (sample_emails 250)))
     = Some 3
   \<and> pauses (events_of (sendBatches (sample_config True) accepting (sample_emails 250))) = []
   \<and> length (pauses (events_of (sendBatches (sample_config True) accepting (sample_emails 250))))
       \<noteq> 3 - 1"
proof -
  let ?E = "sample_emails 250"
  have dry: "DRY_RUN (sample_config True)"
    by (simp add: sample_config_def)
  from after_dry [OF dry, of accepting ?E 3]
  obtain st where st: "after_chunks (sample_config True) accepting ?E 3 = Inr st"
    "pauses (trace st) = []"
    by blast
  have r: "sendBatches (sample_config True) accepting ?E = Inr st"
    using st(1) by (simp only: sendBatches_after three_chunks)
  have "length (batches st) = 3"
    using after_batches [OF st(1)] by simp
  then show ?thesis
    using st(2) by (simp add: r batches_of_def events_of_def)
qed

text \<open>
  \<^bold>\<open>C6, amended.\<close> Take a dispatch that runs to its end (which it does exactly if it is a dry
  run or no throw goes unhandled), on a list that yields \<open>n\<close> chunks. It makes \<open>n\<close> batches
  in either mode. In normal mode the pass for chunk \<open>k\<close> appends to the trace the call to
  the sender for that chunk, then one console line, and then, exactly when chunk \<open>k\<close> is
  not the last one, one pause of the configured delay; this is so whatever the sender
  answered. Over the whole run the calls and pauses therefore alternate: each chunk is
  sent, and each but the last is followed by a pause before the next is sent, \<open>n - 1\<close>
  pauses in all. In dry-run mode the run takes no pause and makes no call. For 250
  recipients the batches have the sizes 100, 100 and 50 in either mode, and normal mode
  takes exactly 2 pauses.
\<close>

theorem sendBatches_pauses:
  "((\<exists>st. sendBatches cfg send emails = Inr st) \<longleftrightarrow> completes cfg send emails)
   \<and> (sendBatches cfg send emails = Inr st \<longrightarrow>
        length (batches st) = ceil_div (length emails) BATCH_SIZE)
   \<and> (\<not> DRY_RUN cfg \<and> after_chunks cfg send emails k = Inr s
        \<and> after_chunks cfg send emails (Suc k) = Inr s' \<longrightarrow>
        (\<exists>line. is_console line
           \<and> trace s' = trace s @ [BatchSend (payload cfg emails k), line]
               @ (if Suc k < ceil_div (length emails) BATCH_SIZE
                  then [Sleep DELAY_BETWEEN_BATCHES_MS] else [])))
   \<and> (\<not> DRY_RUN cfg \<and> sendBatches cfg send emails = Inr st \<longrightarrow>
        actions (trace st)
          = concat (map (send_and_pause cfg emails (ceil_div (length emails) BATCH_SIZE))
              [0..<ceil_div (length emails) BATCH_SIZE])
        \<and> pauses (trace st)
          = replicate (ceil_div (length emails) BATCH_SIZE - 1) DELAY_BETWEEN_BATCHES_MS)
   \<and> (DRY_RUN cfg \<and> sendBatches cfg send emails = Inr st \<longrightarrow>
        pauses (trace st) = [] \<and> actions (trace st) = [])
   \<and> (length emails = 250 \<and> sendBatches cfg send emails = Inr st \<longrightarrow>
        map length (batches st) = [100, 100, 50]
        \<and> (\<not> DRY_RUN cfg \<longrightarrow> length (pauses (trace st)) = 2))"
proof -
  let ?n = "ceil_div (length emails) BATCH_SIZE"
  have fin: "sendBatches cfg send emails = Inr st \<Longrightarrow> after_chunks cfg send emails ?n = Inr st"
    by (simp only: sendBatches_after)
  have a: "sendBatches cfg send emails = Inr st \<longrightarrow> length (batches st) = ?n"
    using after_batches [OF fin] by simp
  have b: "\<not> DRY_RUN cfg \<and> after_chunks cfg send emails k = Inr s
        \<and> after_chunks cfg send emails (Suc k) = Inr s' \<longrightarrow>
        (\<exists>line. is_console line
           \<and> trace s' = trace s @ [BatchSend (payload cfg emails k), line]
               @ (if Suc k < ?n then [Sleep DELAY_BETWEEN_BATCHES_MS] else []))"
    using after_live_step(3) [of cfg send emails k s s'] by blast
  have live_pauses: "\<not> DRY_RUN cfg \<Longrightarrow> sendBatches cfg send emails = Inr st \<Longrightarrow>
      pauses (trace st) = replicate (?n - 1) DELAY_BETWEEN_BATCHES_MS"
  proof -
    assume live: "\<not> DRY_RUN cfg" and r: "sendBatches cfg send emails = Inr st"
    have "pauses (trace st) = replicate (min ?n (?n - 1)) DELAY_BETWEEN_BATCHES_MS"
      using live fin [OF r] by (rule after_live_pauses)
    moreover have "min ?n (?n - 1) = ?n - 1"
      by simp
    ultimately show ?thesis
      by (simp only:)
  qed
  have c: "\<not> DRY_RUN cfg \<and> sendBatches cfg send emails = Inr st \<longrightarrow>
        actions (trace st) = concat (map (send_and_pause cfg emails ?n) [0..<?n])
        \<and> pauses (trace st) = replicate (?n - 1) DELAY_BETWEEN_BATCHES_MS"
    using after_live_actions [OF _ fin] live_pauses by blast
  have d: "DRY_RUN cfg \<and> sendBatches cfg send emails = Inr st \<longrightarrow>
        pauses (trace st) = [] \<and> actions (trace st) = []"
  proof
    assume h: "DRY_RUN cfg \<and> sendBatches cfg send emails = Inr st"
    then have dry: "DRY_RUN cfg" and r: "after_chunks cfg send emails ?n = Inr st"
      using fin by simp_all
    from after_dry [OF dry, of send emails ?n] r
    show "pauses (trace st) = [] \<and> actions (trace st) = []"
      by auto
  qed
  have e: "length emails = 250 \<and> sendBatches cfg send emails = Inr st \<longrightarrow>
        map length (batches st) = [100, 100, 50]
        \<and> (\<not> DRY_RUN cfg \<longrightarrow> length (pauses (trace st)) = 2)"
  proof
    assume h: "length emails = 250 \<and> sendBatches cfg send emails = Inr st"
    then have L: "length emails = 250" and r: "sendBatches cfg send emails = Inr st"
      by simp_all
    have n: "?n = 3"
      using L by (simp add: ceil_div_def BATCH_SIZE_def)
    have "batches st = map (chunk emails) [0..<3]"
      using after_batches [OF fin [OF r]] by (simp only: n)
    then have sizes: "map length (batches st) = [100, 100, 50]"
      by (simp add: upt_3 length_chunk L BATCH_SIZE_def)
    have "\<not> DRY_RUN cfg \<longrightarrow> length (pauses (trace st)) = 2"
      using live_pauses [OF _ r] n by simp
    with sizes show "map length (batches st) = [100, 100, 50]
        \<and> (\<not> DRY_RUN cfg \<longrightarrow> length (pauses (trace st)) = 2)"
      by (intro conjI)
  qed
  show ?thesis
    using sendBatches_ends [of cfg send emails] a b c d e by (intro conjI) assumption+
qed

theorem sendBatches_pauses_witness:
  "\<not> DRY_RUN (sample_config False) \<and> DRY_RUN (sample_config True)
   \<and> length (sample_emails 250) = 250
   \<and> completes (sample_config False) throwing_second (sample_emails 250)
   \<and> actions (events_of (sendBatches (sample_config False) throwing_second (sample_emails 250)))
       = [BatchSend (payload (sample_config False) (sample_emails 250) 0), Sleep 1000,
          BatchSend (payload (sample_config False) (sample_emails 250) 1), Sleep 1000,
          BatchSend (payload (sample_config False) (sample_emails 250) 2)]
   \<and> pauses (events_of (sendBatches (sample_config False) throwing_second (sample_emails 250)))
       = [1000, 1000]
   \<and> completes (sample_config True) throwing_second (sample_emails 250)
   \<and> pauses (events_of (sendBatches (sample_config True) throwing_second (sample_emails 250))) = []
   \<and> map_option (map length)
         (batches_of (sendBatches (sample_config True) throwing_second (sample_emails 250)))
       = Some [100, 100, 50]"
proof -
  let ?live = "sample_config False" and ?dry = "sample_config True" and ?E = "sample_emails 250"
  have live: "\<not> DRY_RUN ?live" and dry: "DRY_RUN ?dry"
    by (simp_all add: sample_config_def)
  have L: "length ?E = 250"
    by (rule length_sample_emails)
  note fin_live = sample_completes(1) [of ?E]
  have fin_dry: "completes ?dry throwing_second ?E"
    using dry by (simp add: completes_def)
  note live_inst = sendBatches_pauses [of ?live throwing_second ?E]
  note dry_inst = sendBatches_pauses [of ?dry throwing_second ?E]
  from fin_live live_inst [THEN conjunct1] obtain st
    where st: "sendBatches ?live throwing_second ?E = Inr st" by blast
  from fin_dry dry_inst [THEN conjunct1] obtain dt
    where dt: "sendBatches ?dry throwing_second ?E = Inr dt" by blast
  note live_run = live_inst [of st, THEN conjunct2, THEN conjunct2, THEN conjunct2, THEN conjunct1,
      THEN mp, OF conjI [OF live st]]
  have two: "replicate 2 DELAY_BETWEEN_BATCHES_MS = [1000, 1000]"
    by (simp add: numeral_2_eq_2 DELAY_BETWEEN_BATCHES_MS_def)
  have a: "actions (trace st)
      = [BatchSend (payload ?live ?E 0), Sleep 1000, BatchSend (payload ?live ?E 1), Sleep 1000,
         BatchSend (payload ?live ?E 2)]"
    using live_run [THEN conjunct1]
    by (simp add: three_chunks upt_3 send_and_pause_def DELAY_BETWEEN_BATCHES_MS_def)
  have p: "pauses (trace st) = [1000, 1000]"
    using live_run [THEN conjunct2] by (simp add: three_chunks two)
  have q: "pauses (trace dt) = []"
    using dry_inst [of dt, THEN conjunct2, THEN conjunct2, THEN conjunct2, THEN conjunct2,
      THEN conjunct1] dry dt by blast
  have b: "map length (batches dt) = [100, 100, 50]"
    using dry_inst [of dt, THEN conjunct2, THEN conjunct2, THEN conjunct2, THEN conjunct2,
      THEN conjunct2] L dt by blast
  have a': "actions (events_of (sendBatches ?live throwing_second ?E))
      = [BatchSend (payload ?live ?E 0), Sleep 1000, BatchSend (payload ?live ?E 1), Sleep 1000,
         BatchSend (payload ?live ?E 2)]"
    and p': "pauses (events_of (sendBatches ?live throwing_second ?E)) = [1000, 1000]"
    using a p by (simp_all add: st events_of_def)
  have q': "pauses (events_of (sendBatches ?dry throwing_second ?E)) = []"
    and b': "map_option (map length) (batches_of (sendBatches ?dry throwing_second ?E))
      = Some [100, 100, 50]"
    using q b by (simp_all add: dt events_of_def batches_of_def)
  show ?thesis
    using live dry L fin_live a' p' fin_dry q' b' by (intro conjI) assumption+
qed

section \<open>Decimal numerals\<close>

lemma of_char_digit: "d < 10 \<Longrightarrow> of_char (digit_char d) - 48 = d"
proof -
  assume "d < 10"
  then have "d \<in> {0, 1, 2, 3, 4, 5, 6, 7, 8, 9}" by auto
  then show ?thesis by (auto simp: digit_char_def)
qed

lemma digit_char_mem: "d < 10 \<Longrightarrow> digit_char d \<in> set ''0123456789''"
  unfolding digit_char_def by (rule nth_mem) simp

lemma read_nat_snoc: "read_nat (s @ [c]) = 10 * read_nat s + (of_char c - 48)"
  by (simp add: read_nat_def)

lemma read_show_nat: "read_nat (show_nat n) = n"
proof (induction n rule: show_nat.induct)
  case (1 n)
  show ?case
  proof (cases "n < 10")
    case True
    then show ?thesis
      by (subst show_nat.simps) (simp add: read_nat_def of_char_digit)
  next
    case False
    have "read_nat (show_nat n) = 10 * read_nat (show_nat (n div 10)) + (of_char (digit_char (n mod 10)) - 48)"
      using False by (subst show_nat.simps) (simp add: read_nat_snoc)
    also have "\<dots> = 10 * (n div 10) + n mod 10"
      using 1 False by (simp add: of_char_digit)
    finally show ?thesis by simp
  qed
qed

lemma show_nat_digits: "set (show_nat n) \<subseteq> set ''0123456789''"
proof (induction n rule: show_nat.induct)
  case (1 n)
  show ?case
  proof (cases "n < 10")
    case True
    then show ?thesis
      using digit_char_mem [of n] by (subst show_nat.simps) simp
  next
    case False
    then show ?thesis
      using 1 digit_char_mem [of "n mod 10"] by (subst show_nat.simps) simp
  qed
qed

lemma page_of_fetch_error_message: "page_of_message (fetch_error_message p e) = p"
proof -
  have "drop 35 (fetch_error_message p e) = show_nat p @ '': '' @ auth_message e"
    by (simp add: fetch_error_message_def)
  moreover have "\<And>c. c \<in> set (show_nat p) \<Longrightarrow> c \<noteq> CHR '':''"
    using show_nat_digits [of p] by auto
  ultimately have "takeWhile (\<lambda>c. c \<noteq> CHR '':'') (drop 35 (fetch_error_message p e)) = show_nat p"
    by simp
  then show ?thesis
    by (simp add: page_of_message_def read_show_nat)
qed

section \<open>The fetch loop, page by page\<close>

lemma requests_append [simp]: "requests (xs @ ys) = requests xs @ requests ys"
  by (simp add: requests_def)

lemma requests_page_events [simp]: "requests (page_events L q) = [(q, perPage)]"
  by (simp add: page_events_def requests_def fetched_line_def)

lemma requests_last_page_events [simp]: "requests (last_page_events L q) = [(q, perPage)]"
  by (simp add: last_page_events_def requests_def page_events_def fetched_line_def
        split: list_result.splits option.splits list.splits)

lemma emails_upto_Suc: "emails_upto L (Suc m) = emails_upto L m @ page_emails L (Suc m)"
  by (simp add: emails_upto_def)

lemma fetch_events_Suc: "fetch_events L (Suc m) = fetch_events L m @ page_events L (Suc m)"
  by (simp add: fetch_events_def)

lemma requests_fetch_events: "requests (fetch_events L m) = map (\<lambda>q. (q, perPage)) [1..<Suc m]"
  by (induction m) (simp_all add: fetch_events_Suc, simp add: fetch_events_def requests_def)

lemma push_emails_eq: "push_emails emails us = emails @ nonempty_emails us"
  by (induction us arbitrary: emails) (auto simp: nonempty_emails_def split: option.splits)

lemma fetch_step_full:
  assumes "page_full (L p perPage)"
  shows "fetch_loop L p emails tr
       = fetch_loop L (Suc p) (emails @ page_emails L p)
           (tr @ [ListUsers p perPage, fetched_line (length (emails @ page_emails L p))])"
  using assms
  by (subst fetch_loop.simps)
     (auto simp: page_full_def page_emails_def push_emails_eq fetched_line_def Let_def perPage_def
           split: list_result.splits option.splits)

lemma fetch_full_prefix:
  assumes "\<forall>q. 1 \<le> q \<and> q \<le> m \<longrightarrow> page_full (L q perPage)"
  shows "fetchAllEmails L = fetch_loop L (Suc m) (emails_upto L m) (fetch_events L m)"
  using assms
proof (induction m)
  case 0
  show ?case by (simp add: fetchAllEmails_def emails_upto_def fetch_events_def)
next
  case (Suc m)
  then have "fetchAllEmails L = fetch_loop L (Suc m) (emails_upto L m) (fetch_events L m)"
    by simp
  also have "\<dots> = fetch_loop L (Suc (Suc m)) (emails_upto L (Suc m)) (fetch_events L (Suc m))"
    using Suc.prems
    by (subst fetch_step_full) (simp_all add: emails_upto_Suc fetch_events_Suc page_events_def)
  finally show ?case .
qed

lemma fetch_step_last:
  assumes "page_last (L (Suc m) perPage)"
  shows "fetch_loop L (Suc m) (emails_upto L m) (fetch_events L m)
       = Some (fetch_events L m @ last_page_events L (Suc m), Inr (emails_upto L (Suc m)))"
  using assms
  by (subst fetch_loop.simps)
     (auto simp: page_last_def page_emails_def push_emails_eq fetched_line_def Let_def
                 emails_upto_Suc last_page_events_def page_events_def nonempty_emails_def
           split: list_result.splits option.splits list.splits)

lemma fetch_step_error:
  assumes "L p perPage = Resolved us (Some e)"
  shows "fetch_loop L p emails tr
       = Some (tr @ [ListUsers p perPage], Inl (Error (fetch_error_message p e)))"
  using assms by (subst fetch_loop.simps) (simp add: fetch_error_message_def)

text \<open>A fetch that returns has met a page that is not full.\<close>

lemma fetch_loop_returns_not_all_full:
  assumes "fetch_loop L p emails tr = Some y"
  shows "\<not> (\<forall>q\<ge>p. page_full (L q perPage))"
proof (rule fetch_loop.raw_induct
         [where P = "\<lambda>L p emails tr y. \<not> (\<forall>q\<ge>p. page_full (L q perPage))", OF _ assms],
       goal_cases)
  case (1 f L p emails tr y)
  show ?case
  proof
    assume full: "\<forall>q\<ge>p. page_full (L q perPage)"
    then have "page_full (L p perPage)" by simp
    then obtain us where us: "L p perPage = Resolved (Some us) None" "perPage \<le> length us"
      by (auto simp: page_full_def split: list_result.splits option.splits)
    have "0 < perPage" by (simp add: perPage_def)
    with us have "length us \<noteq> 0" "\<not> length us < perPage" by auto
    with us 1(2) obtain e t where "f L (p + 1) e t = Some y"
      by (auto simp: Let_def)
    then have "\<not> (\<forall>q\<ge>p + 1. page_full (L q perPage))"
      by (rule 1(1))
    with full show False by auto
  qed
qed

lemma fetch_never_returns:
  assumes "\<forall>q\<ge>1. page_full (L q perPage)"
  shows "fetchAllEmails L = None"
proof (cases "fetchAllEmails L")
  case None
  then show ?thesis .
next
  case (Some y)
  then have "\<not> (\<forall>q\<ge>1. page_full (L q perPage))"
    unfolding fetchAllEmails_def by (rule fetch_loop_returns_not_all_full)
  with assms show ?thesis by simp
qed

text \<open>Whatever the directory answers, a fetch that ends has only requested pages and
  printed progress lines.\<close>

lemma fetch_loop_events:
  assumes "fetch_loop L p emails tr = Some y"
  shows "\<exists>ev. fst y = tr @ ev \<and> list_all is_fetch_event ev"
proof (rule fetch_loop.raw_induct
         [where P = "\<lambda>L p emails tr y. \<exists>ev. fst y = tr @ ev \<and> list_all is_fetch_event ev",
          OF _ assms],
       goal_cases)
  case (1 f L p emails tr y)
  have line: "\<And>n. is_fetch_event (ConsoleLog (''  Fetched '' @ show_nat n @ '' emails so far...''))"
    by (simp add: is_fetch_event_def)
  have req: "is_fetch_event (ListUsers p perPage)"
    by (simp add: is_fetch_event_def)
  show ?case
  proof (cases "\<exists>e t. f L (p + 1) e (tr @ [ListUsers p perPage] @ [t]) = Some y \<and> is_fetch_event t")
    case True
    then obtain e t where rec: "f L (p + 1) e (tr @ [ListUsers p perPage] @ [t]) = Some y"
      and t: "is_fetch_event t" by blast
    from 1(1) [OF rec] obtain ev where "fst y = (tr @ [ListUsers p perPage] @ [t]) @ ev"
      "list_all is_fetch_event ev" by blast
    then have "fst y = tr @ (ListUsers p perPage # t # ev)
        \<and> list_all is_fetch_event (ListUsers p perPage # t # ev)"
      using req t by simp
    then show ?thesis by blast
  next
    case False
    then have "fst y = tr @ [ListUsers p perPage]
        \<or> (\<exists>n. fst y = tr @ [ListUsers p perPage,
              ConsoleLog (''  Fetched '' @ show_nat n @ '' emails so far...'')])"
      using 1(2) line
      by (auto simp: Let_def split: list_result.splits option.splits if_splits)
    then show ?thesis
    proof
      assume "fst y = tr @ [ListUsers p perPage]"
      then have "fst y = tr @ [ListUsers p perPage] \<and> list_all is_fetch_event [ListUsers p perPage]"
        using req by simp
      then show ?thesis by blast
    next
      assume "\<exists>n. fst y = tr @ [ListUsers p perPage,
              ConsoleLog (''  Fetched '' @ show_nat n @ '' emails so far...'')]"
      then obtain n where "fst y = tr @ [ListUsers p perPage,
              ConsoleLog (''  Fetched '' @ show_nat n @ '' emails so far...'')]" by blast
      then have "fst y = tr @ [ListUsers p perPage,
              ConsoleLog (''  Fetched '' @ show_nat n @ '' emails so far...'')]
        \<and> list_all is_fetch_event [ListUsers p perPage,
              ConsoleLog (''  Fetched '' @ show_nat n @ '' emails so far...'')]"
        using req line by simp
      then show ?thesis by blast
    qed
  qed
qed

lemma fetchAllEmails_events:
  "fetchAllEmails L = Some (ftr, r) \<Longrightarrow> list_all is_fetch_event ftr"
  using fetch_loop_events [of L 1 "[]" "[]" "(ftr, r)"] by (simp add: fetchAllEmails_def)

lemma fetch_event_not_count: "is_fetch_event e \<Longrightarrow> \<not> is_count_line e"
proof (cases e)
  case (ConsoleLog s)
  assume "is_fetch_event e"
  then have ten: "take 10 s = ''  Fetched ''"
    using ConsoleLog by (simp add: is_fetch_event_def)
  have "take 8 s = take 8 (take 10 s)" by simp
  then have "take 8 s = ''  Fetche''" by (simp only: ten) simp
  with ten show ?thesis
    using ConsoleLog by (simp add: is_count_line_def)
qed (simp_all add: is_count_line_def)

lemma fetch_events_quiet:
  assumes "list_all is_fetch_event tr"
  shows "\<not> reports_counts tr" and "send_calls tr = []" and "pauses tr = []"
    and "sending_line \<notin> set tr"
proof -
  show "\<not> reports_counts tr"
    using assms fetch_event_not_count by (auto simp: reports_counts_def list_all_iff list_ex_iff)
  have other: "\<And>e. is_fetch_event e \<Longrightarrow>
      (case e of BatchSend ms \<Rightarrow> [ms] | _ \<Rightarrow> []) = []
      \<and> (case e of Sleep d \<Rightarrow> [d] | _ \<Rightarrow> []) = [] \<and> e \<noteq> sending_line"
    by (auto simp: is_fetch_event_def sending_line_def split: event.splits)
  show "send_calls tr = []"
    using assms other by (auto simp: send_calls_def list_all_iff)
  show "pauses tr = []"
    using assms other by (auto simp: pauses_def list_all_iff)
  show "sending_line \<notin> set tr"
    using assms other by (auto simp: list_all_iff)
qed

lemma banner_quiet:
  "\<not> reports_counts (banner cfg)" "send_calls (banner cfg) = []" "pauses (banner cfg) = []"
  "sending_line \<notin> set (banner cfg)" "requests (banner cfg) = []"
  by (simp_all add: banner_def reports_counts_def is_count_line_def send_calls_def pauses_def
        sending_line_def requests_def)

lemma reports_counts_append [simp]:
  "reports_counts (xs @ ys) \<longleftrightarrow> reports_counts xs \<or> reports_counts ys"
  by (auto simp: reports_counts_def list_ex_iff)

lemma fetch_phase_quiet:
  assumes "list_all is_fetch_event ftr"
  shows "send_calls (banner cfg @ ftr @ rest) = send_calls rest"
    and "pauses (banner cfg @ ftr @ rest) = pauses rest"
    and "sending_line \<in> set (banner cfg @ ftr @ rest) \<longleftrightarrow> sending_line \<in> set rest"
    and "reports_counts (banner cfg @ ftr @ rest) \<longleftrightarrow> reports_counts rest"
  using banner_quiet [of cfg] fetch_events_quiet [OF assms] by simp_all

section \<open>The main program, case by case\<close>

lemma main_fetch_throws:
  "fetchAllEmails L = Some (ftr, Inl x) \<Longrightarrow> main cfg L send = Some (banner cfg @ ftr, Inl x)"
  by (simp add: main_def banner_def)

lemma main_nothing_found:
  "fetchAllEmails L = Some (ftr, Inr []) \<Longrightarrow>
   main cfg L send = Some (banner cfg @ ftr @ [found_line 0, no_emails_line], Inr ())"
  by (simp add: main_def banner_def found_line_def no_emails_line_def)

lemma main_dispatch:
  "fetchAllEmails L = Some (ftr, Inr emails) \<Longrightarrow> emails \<noteq> [] \<Longrightarrow>
   sendBatches cfg send emails = Inr st \<Longrightarrow>
   main cfg L send
     = Some (banner cfg @ ftr @ [found_line (length emails), sending_line]
               @ trace st @ summary_lines (sent st) (failed st),
             Inr ())"
  by (simp add: main_def banner_def found_line_def sending_line_def summary_lines_def Let_def)

lemma main_dispatch_rejects:
  "fetchAllEmails L = Some (ftr, Inr emails) \<Longrightarrow> emails \<noteq> [] \<Longrightarrow>
   sendBatches cfg send emails = Inl (x, dtr) \<Longrightarrow>
   main cfg L send
     = Some (banner cfg @ ftr @ [found_line (length emails), sending_line] @ dtr, Inl x)"
  by (simp add: main_def banner_def found_line_def sending_line_def Let_def)

lemma fetch_empty_directory: "fetchAllEmails empty_directory = Some ([ListUsers 1 perPage], Inr [])"
  by (simp add: fetchAllEmails_def fetch_loop.simps empty_directory_def)

section \<open>The directory fetcher\<close>

text \<open>
  \<^bold>\<open>C3.\<close> The page size is 1000. Suppose the pages \<open>1, \<dots>, n - 1\<close> come back without error
  and full, and page \<open>n\<close> comes back without error with no users or with fewer than 1000.
  Then \<^verbatim>\<open>fetchAllEmails\<close> returns; it has requested exactly the pages \<open>1, 2, \<dots>, n\<close>, in
  this order, each with page size 1000; and it returns the non-empty email fields of the
  users of these pages, page after page and in the order within each page. If every page
  comes back full, it never returns.
\<close>

theorem fetchAllEmails_pages:
  "perPage = 1000
   \<and> (1 \<le> n \<and> (\<forall>q. 1 \<le> q \<and> q < n \<longrightarrow> page_full (L q perPage)) \<and> page_last (L n perPage)
        \<longrightarrow> fetchAllEmails L
              = Some (fetch_events L (n - 1) @ last_page_events L n, Inr (emails_upto L n))
          \<and> requests (fetch_events L (n - 1) @ last_page_events L n)
              = map (\<lambda>q. (q, perPage)) [1..<Suc n])
   \<and> ((\<forall>q\<ge>1. page_full (L q perPage)) \<longrightarrow> fetchAllEmails L = None)"
proof -
  have a: "perPage = 1000"
    by (simp add: perPage_def)
  have b: "1 \<le> n \<and> (\<forall>q. 1 \<le> q \<and> q < n \<longrightarrow> page_full (L q perPage)) \<and> page_last (L n perPage)
        \<longrightarrow> fetchAllEmails L
              = Some (fetch_events L (n - 1) @ last_page_events L n, Inr (emails_upto L n))
          \<and> requests (fetch_events L (n - 1) @ last_page_events L n)
              = map (\<lambda>q. (q, perPage)) [1..<Suc n]"
  proof
    assume h: "1 \<le> n \<and> (\<forall>q. 1 \<le> q \<and> q < n \<longrightarrow> page_full (L q perPage)) \<and> page_last (L n perPage)"
    then obtain m where n: "n = Suc m"
      by (cases n) auto
    have full: "\<forall>q. 1 \<le> q \<and> q \<le> m \<longrightarrow> page_full (L q perPage)"
      using h n by auto
    have last: "page_last (L (Suc m) perPage)"
      using h n by simp
    have "fetchAllEmails L = fetch_loop L (Suc m) (emails_upto L m) (fetch_events L m)"
      using full by (rule fetch_full_prefix)
    also have "\<dots> = Some (fetch_events L m @ last_page_events L (Suc m), Inr (emails_upto L (Suc m)))"
      using last by (rule fetch_step_last)
    finally have r: "fetchAllEmails L
        = Some (fetch_events L (n - 1) @ last_page_events L n, Inr (emails_upto L n))"
      by (simp add: n)
    have q: "requests (fetch_events L (n - 1) @ last_page_events L n)
        = map (\<lambda>q. (q, perPage)) [1..<Suc n]"
      by (simp add: n requests_fetch_events)
    from r q show "fetchAllEmails L
              = Some (fetch_events L (n - 1) @ last_page_events L n, Inr (emails_upto L n))
          \<and> requests (fetch_events L (n - 1) @ last_page_events L n)
              = map (\<lambda>q. (q, perPage)) [1..<Suc n]"
      by (intro conjI)
  qed
  have c: "(\<forall>q\<ge>1. page_full (L q perPage)) \<longrightarrow> fetchAllEmails L = None"
    using fetch_never_returns [of L] by blast
  show ?thesis
    using a b c by (intro conjI) assumption+
qed

theorem fetchAllEmails_pages_witness:
  "page_full (small_directory 1 perPage)
   \<and> page_last (small_directory 2 perPage)
   \<and> fetchAllEmails small_directory
       = Some (fetch_events small_directory 1 @ last_page_events small_directory 2,
               Inr (emails_upto small_directory 2))
   \<and> requests (fetch_events small_directory 1 @ last_page_events small_directory 2)
       = [(1, 1000), (2, 1000)]
   \<and> page_emails small_directory 2 = [''user1001@example.com'']
   \<and> (\<forall>q. page_full (endless_directory q perPage))
   \<and> fetchAllEmails endless_directory = None"
proof -
  have one: "\<And>q::nat. 1 \<le> q \<and> q < 2 \<longleftrightarrow> q = 1"
    by auto
  have full: "\<forall>q. 1 \<le> q \<and> q < 2 \<longrightarrow> page_full (small_directory q perPage)"
    by (simp add: one small_directory_def page_full_def perPage_def)
  have last: "page_last (small_directory 2 perPage)"
    by (simp add: small_directory_def page_last_def perPage_def)
  have pe: "page_emails small_directory 2 = [''user1001@example.com'']"
    by (simp add: page_emails_def small_directory_def nonempty_emails_def sample_user_def
          upt_rec [of 1000] upt_rec [of 1001] upt_rec [of 1002] upt_rec [of 1003]
          show_nat.simps digit_char_def)
  have first: "page_full (small_directory 1 perPage)"
    by (simp add: small_directory_def page_full_def perPage_def)
  have always: "\<forall>q. page_full (endless_directory q perPage)"
    by (simp add: endless_directory_def page_full_def perPage_def)
  then have endless: "\<forall>q\<ge>1. page_full (endless_directory q perPage)"
    by simp
  have two: "[1..<Suc 2] = [1, 2]"
    by (simp add: upt_rec)
  note small = fetchAllEmails_pages [of 2 small_directory, THEN conjunct2, THEN conjunct1]
  note never = fetchAllEmails_pages [of 0 endless_directory, THEN conjunct2, THEN conjunct2]
  have le: "(1::nat) \<le> 2"
    by simp
  have pred: "(2::nat) - 1 = 1"
    by simp
  have pages: "map (\<lambda>q. (q, perPage)) [1..<Suc 2] = [(1, 1000), (2, 1000)]"
    by (simp add: upt_rec perPage_def)
  have r: "fetchAllEmails small_directory
       = Some (fetch_events small_directory 1 @ last_page_events small_directory 2,
               Inr (emails_upto small_directory 2))
     \<and> requests (fetch_events small_directory 1 @ last_page_events small_directory 2)
       = [(1, 1000), (2, 1000)]"
    using mp [OF small, OF conjI [OF le conjI [OF full last]]] by (simp only: pred pages)
  have n: "fetchAllEmails endless_directory = None"
    using never endless by blast
  show ?thesis
    using first last r pe always n by (intro conjI) (assumption | erule conjunct1 | erule conjunct2)+
qed

text \<open>
  \<^bold>\<open>C7.\<close> Suppose the pages before page \<open>p\<close> come back without error and full and the request
  for page \<open>p\<close> reports an error. Then \<^verbatim>\<open>fetchAllEmails\<close> throws instead of returning a list;
  the message of the thrown error is the fixed text, the page number \<open>p\<close> in decimal, a colon
  and the message of the reported error, and \<open>p\<close> can be read back from it; the pages
  \<open>1, \<dots>, p\<close> have been requested once each, page \<open>p\<close> last (no retry). The process logs the
  error and exits with status 1; before that it has made no call to the sender, taken no
  pause, not announced any dispatch and printed no count of sent or failed addresses.
\<close>

theorem fetchAllEmails_page_error:
  assumes "1 \<le> p"
    and "\<forall>q. 1 \<le> q \<and> q < p \<longrightarrow> page_full (L q perPage)"
    and "L p perPage = Resolved us (Some e)"
  shows "fetchAllEmails L
           = Some (fetch_events L (p - 1) @ [ListUsers p perPage],
                   Inl (Error (fetch_error_message p e)))
       \<and> page_of_message (fetch_error_message p e) = p
       \<and> requests (fetch_events L (p - 1) @ [ListUsers p perPage])
           = map (\<lambda>q. (q, perPage)) [1..<Suc p]
       \<and> run cfg L send
           = Some (banner cfg @ (fetch_events L (p - 1) @ [ListUsers p perPage])
                     @ [ConsoleErrorWith ''Fatal error:'' (Error (fetch_error_message p e)), Exit 1],
                   1)
       \<and> send_calls (banner cfg @ (fetch_events L (p - 1) @ [ListUsers p perPage])
           @ [ConsoleErrorWith ''Fatal error:'' (Error (fetch_error_message p e)), Exit 1]) = []
       \<and> pauses (banner cfg @ (fetch_events L (p - 1) @ [ListUsers p perPage])
           @ [ConsoleErrorWith ''Fatal error:'' (Error (fetch_error_message p e)), Exit 1]) = []
       \<and> sending_line \<notin> set (banner cfg @ (fetch_events L (p - 1) @ [ListUsers p perPage])
           @ [ConsoleErrorWith ''Fatal error:'' (Error (fetch_error_message p e)), Exit 1])
       \<and> \<not> reports_counts (banner cfg @ (fetch_events L (p - 1) @ [ListUsers p perPage])
           @ [ConsoleErrorWith ''Fatal error:'' (Error (fetch_error_message p e)), Exit 1])"
proof -
  let ?ftr = "fetch_events L (p - 1) @ [ListUsers p perPage]"
  let ?x = "Error (fetch_error_message p e)"
  let ?fatal = "[ConsoleErrorWith ''Fatal error:'' ?x, Exit 1]"
  obtain m where p: "p = Suc m"
    using assms(1) by (cases p) auto
  have full: "\<forall>q. 1 \<le> q \<and> q \<le> m \<longrightarrow> page_full (L q perPage)"
    using assms(2) p by auto
  have "fetchAllEmails L = fetch_loop L (Suc m) (emails_upto L m) (fetch_events L m)"
    using full by (rule fetch_full_prefix)
  also have "\<dots> = Some (fetch_events L m @ [ListUsers (Suc m) perPage],
                         Inl (Error (fetch_error_message (Suc m) e)))"
    using assms(3) unfolding p by (rule fetch_step_error)
  finally have a: "fetchAllEmails L = Some (?ftr, Inl ?x)"
    by (simp add: p)
  note b = page_of_fetch_error_message [of p e]
  have c: "requests ?ftr = map (\<lambda>q. (q, perPage)) [1..<Suc p]"
    by (simp add: p requests_fetch_events) (simp add: requests_def)
  have d: "run cfg L send = Some (banner cfg @ ?ftr @ ?fatal, 1)"
    by (simp add: run_def main_fetch_throws [OF a])
  have ev: "list_all is_fetch_event ?ftr"
    using a by (rule fetchAllEmails_events)
  have fatal: "send_calls ?fatal = []" "pauses ?fatal = []" "sending_line \<notin> set ?fatal"
    "\<not> reports_counts ?fatal"
    by (simp_all add: send_calls_def pauses_def sending_line_def reports_counts_def is_count_line_def)
  have f: "send_calls (banner cfg @ ?ftr @ ?fatal) = []"
    by (simp only: fetch_phase_quiet(1) [OF ev] fatal)
  have g: "pauses (banner cfg @ ?ftr @ ?fatal) = []"
    by (simp only: fetch_phase_quiet(2) [OF ev] fatal)
  have h: "sending_line \<notin> set (banner cfg @ ?ftr @ ?fatal)"
    unfolding fetch_phase_quiet(3) [OF ev] by (rule fatal(3))
  have i: "\<not> reports_counts (banner cfg @ ?ftr @ ?fatal)"
    unfolding fetch_phase_quiet(4) [OF ev] by (rule fatal(4))
  show ?thesis
    using a b c d f g h i by (intro conjI) assumption+
qed

theorem fetchAllEmails_page_error_witness:
  "(1::nat) \<le> 3
   \<and> page_full (broken_directory 1 perPage) \<and> page_full (broken_directory 2 perPage)
   \<and> broken_directory 3 perPage = Resolved None (Some (AuthError ''upstream timeout''))
   \<and> fetchAllEmails broken_directory
       = Some (fetch_events broken_directory 2 @ [ListUsers 3 perPage],
               Inl (Error ''Supabase auth fetch failed at page 3: upstream timeout''))
   \<and> requests (fetch_events broken_directory 2 @ [ListUsers 3 perPage])
       = [(1, 1000), (2, 1000), (3, 1000)]
   \<and> map_option snd (run (sample_config False) broken_directory accepting) = Some 1"
proof -
  have full: "\<forall>q. 1 \<le> q \<and> q < 3 \<longrightarrow> page_full (broken_directory q perPage)"
    by (simp add: broken_directory_def page_full_def perPage_def)
  have first: "page_full (broken_directory 1 perPage)"
    and second: "page_full (broken_directory 2 perPage)"
    by (simp_all add: broken_directory_def page_full_def perPage_def)
  have err: "broken_directory 3 perPage = Resolved None (Some (AuthError ''upstream timeout''))"
    by (simp add: broken_directory_def)
  have msg: "fetch_error_message 3 (AuthError ''upstream timeout'')
      = ''Supabase auth fetch failed at page 3: upstream timeout''"
    by (simp add: fetch_error_message_def show_nat.simps digit_char_def)
  have pages: "map (\<lambda>q. (q, perPage)) [1..<Suc 3] = [(1, 1000), (2, 1000), (3, 1000)]"
    by (simp add: upt_rec perPage_def)
  have pred: "(3::nat) - 1 = 2"
    by simp
  have le: "(1::nat) \<le> 3"
    by simp
  note inst = fetchAllEmails_page_error
    [where p = 3 and L = broken_directory and us = None and e = "AuthError ''upstream timeout''"
       and cfg = "sample_config False" and send = accepting, OF le full err]
  have a: "fetchAllEmails broken_directory
       = Some (fetch_events broken_directory 2 @ [ListUsers 3 perPage],
               Inl (Error ''Supabase auth fetch failed at page 3: upstream timeout''))"
    using inst [THEN conjunct1] by (simp only: msg pred)
  have b: "requests (fetch_events broken_directory 2 @ [ListUsers 3 perPage])
       = [(1, 1000), (2, 1000), (3, 1000)]"
    using inst [THEN conjunct2, THEN conjunct2, THEN conjunct1] by (simp only: pages pred)
  have c: "map_option snd (run (sample_config False) broken_directory accepting) = Some 1"
    by (simp add: inst [THEN conjunct2, THEN conjunct2, THEN conjunct2, THEN conjunct1])
  show ?thesis
    using le first second err a b c by (intro conjI) assumption+
qed

lemma fetch_tiny_directory:
  "fetchAllEmails tiny_directory
     = Some ([ListUsers 1 perPage, fetched_line 1], Inr [''user2@example.com''])"
  by code_simp

lemma fetch_broken_directory:
  "fetchAllEmails broken_directory
     = Some (fetch_events broken_directory 2 @ [ListUsers 3 perPage],
             Inl (Error (fetch_error_message 3 (AuthError ''upstream timeout''))))"
proof -
  have full: "\<forall>q. 1 \<le> q \<and> q \<le> 2 \<longrightarrow> page_full (broken_directory q perPage)"
    by (simp add: broken_directory_def page_full_def perPage_def)
  have three: "Suc 2 = 3"
    by simp
  have "fetchAllEmails broken_directory
      = fetch_loop broken_directory (Suc 2) (emails_upto broken_directory 2)
          (fetch_events broken_directory 2)"
    using full by (rule fetch_full_prefix)
  also have "\<dots> = Some (fetch_events broken_directory 2 @ [ListUsers 3 perPage],
             Inl (Error (fetch_error_message 3 (AuthError ''upstream timeout''))))"
    unfolding three by (rule fetch_step_error [of _ _ None]) (simp add: broken_directory_def)
  finally show ?thesis .
qed

lemma sendBatches_rejecting_one:
  "sendBatches (sample_config False) rejecting [''user2@example.com'']
     = Inl (Error ''Cannot read properties of null (reading 'message')'',
            [BatchSend (payload (sample_config False) [''user2@example.com''] 0)])"
proof -
  let ?cfg = "sample_config False" and ?E = "[''user2@example.com'']"
  have live: "\<not> DRY_RUN ?cfg"
    by (simp add: sample_config_def)
  have k: "0 < ceil_div (length ?E) BATCH_SIZE"
    by (simp add: ceil_div_def BATCH_SIZE_def)
  have s: "after_chunks ?cfg rejecting ?E 0 = Inr dispatch_init"
    by simp
  have thrown: "rejecting 0 (payload ?cfg ?E 0) = Threw Null"
    by (simp add: rejecting_def)
  have unreadable: "read_message Null = Inl (Error ''Cannot read properties of null (reading 'message')'')"
    by (simp add: read_message_def)
  from sendBatches_fault [OF live k s thrown unreadable]
  show ?thesis
    by (simp add: dispatch_init_def)
qed

section \<open>The process\<close>

text \<open>
  \<^bold>\<open>C8 as stated fails\<close> for a run that finds no email address: the process ends with
  status 0, but \<^verbatim>\<open>main\<close> returns before the dispatch and prints no summary of counts.
\<close>

theorem run_nothing_found_counterexample:
  "run (sample_config False) empty_directory accepting
     = Some ([ConsoleLog ''=== SENDING EMAILS ==='',
              ConsoleLog (newline # ''1. Fetching emails from Supabase...''),
              ListUsers 1 1000,
              ConsoleLog (''   Found 0 emails'' @ [newline]),
              ConsoleLog ''No emails found. Check your table/column names in the script.''],
             0)
   \<and> \<not> reports_counts
         [ConsoleLog ''=== SENDING EMAILS ==='',
          ConsoleLog (newline # ''1. Fetching emails from Supabase...''),
          ListUsers 1 1000,
          ConsoleLog (''   Found 0 emails'' @ [newline]),
          ConsoleLog ''No emails found. Check your table/column names in the script.'']"
proof -
  have "run (sample_config False) empty_directory accepting
     = Some ([ConsoleLog ''=== SENDING EMAILS ==='',
              ConsoleLog (newline # ''1. Fetching emails from Supabase...''),
              ListUsers 1 1000,
              ConsoleLog (''   Found 0 emails'' @ [newline]),
              ConsoleLog ''No emails found. Check your table/column names in the script.''],
             0)"
    by (simp add: run_def main_def fetch_empty_directory sample_config_def perPage_def
          show_nat.simps digit_char_def)
  moreover have "\<not> reports_counts
         [ConsoleLog ''=== SENDING EMAILS ==='',
          ConsoleLog (newline # ''1. Fetching emails from Supabase...''),
          ListUsers 1 1000,
          ConsoleLog (''   Found 0 emails'' @ [newline]),
          ConsoleLog ''No emails found. Check your table/column names in the script.'']"
    by (simp add: reports_counts_def is_count_line_def newline_def)
  ultimately show ?thesis by (rule conjI)
qed

text \<open>
  \<^bold>\<open>C8, amended.\<close> Take a run whose fetch ends. If the fetch throws (a reported error or
  any other fault of the directory call), the process logs the thrown value as a fatal
  error and exits with status 1. If at least one address was fetched and an exception
  leaves the dispatch, the process logs it as a fatal error and exits with status 1 as
  well. If at least one address was fetched and the dispatch returns, the process exits
  with status 0 and the last lines it prints are the summary of the returned \<open>sent\<close> and
  \<open>failed\<close> counters. If the fetch returns no address, the process exits with status 0,
  but it prints the notice that no emails were found, and no count. (A fetch that does
  not end leaves the process running.)
\<close>

theorem run_exit_status:
  "(fetchAllEmails L = Some (ftr, Inl x) \<longrightarrow>
      run cfg L send
        = Some (banner cfg @ ftr @ [ConsoleErrorWith ''Fatal error:'' x, Exit 1], 1))
   \<and> (fetchAllEmails L = Some (ftr, Inr emails) \<and> emails \<noteq> []
        \<and> sendBatches cfg send emails = Inl (x, dtr) \<longrightarrow>
      run cfg L send
        = Some (banner cfg @ ftr @ [found_line (length emails), sending_line] @ dtr
                  @ [ConsoleErrorWith ''Fatal error:'' x, Exit 1],
                1))
   \<and> (fetchAllEmails L = Some (ftr, Inr emails) \<and> emails \<noteq> []
        \<and> sendBatches cfg send emails = Inr st \<longrightarrow>
      run cfg L send
        = Some (banner cfg @ ftr @ [found_line (length emails), sending_line]
                  @ trace st @ summary_lines (sent st) (failed st),
                0)
      \<and> reports_counts (summary_lines (sent st) (failed st)))
   \<and> (fetchAllEmails L = Some (ftr, Inr []) \<longrightarrow>
      run cfg L send = Some (banner cfg @ ftr @ [found_line 0, no_emails_line], 0)
      \<and> \<not> reports_counts (banner cfg @ ftr @ [found_line 0, no_emails_line]))
   \<and> (fetchAllEmails L = None \<longrightarrow> run cfg L send = None)"
proof -
  have a: "fetchAllEmails L = Some (ftr, Inl x) \<longrightarrow>
      run cfg L send
        = Some (banner cfg @ ftr @ [ConsoleErrorWith ''Fatal error:'' x, Exit 1], 1)"
    by (simp add: run_def main_fetch_throws)
  have b: "fetchAllEmails L = Some (ftr, Inr emails) \<and> emails \<noteq> []
        \<and> sendBatches cfg send emails = Inl (x, dtr) \<longrightarrow>
      run cfg L send
        = Some (banner cfg @ ftr @ [found_line (length emails), sending_line] @ dtr
                  @ [ConsoleErrorWith ''Fatal error:'' x, Exit 1],
                1)"
    by (simp add: run_def main_dispatch_rejects)
  have c: "fetchAllEmails L = Some (ftr, Inr emails) \<and> emails \<noteq> []
        \<and> sendBatches cfg send emails = Inr st \<longrightarrow>
      run cfg L send
        = Some (banner cfg @ ftr @ [found_line (length emails), sending_line]
                  @ trace st @ summary_lines (sent st) (failed st),
                0)
      \<and> reports_counts (summary_lines (sent st) (failed st))"
    by (simp add: run_def main_dispatch)
       (simp add: reports_counts_def summary_lines_def is_count_line_def)
  have d: "fetchAllEmails L = Some (ftr, Inr []) \<longrightarrow>
      run cfg L send = Some (banner cfg @ ftr @ [found_line 0, no_emails_line], 0)
      \<and> \<not> reports_counts (banner cfg @ ftr @ [found_line 0, no_emails_line])"
  proof
    assume f: "fetchAllEmails L = Some (ftr, Inr [])"
    then have ev: "list_all is_fetch_event ftr"
      by (rule fetchAllEmails_events)
    have r: "run cfg L send = Some (banner cfg @ ftr @ [found_line 0, no_emails_line], 0)"
      by (simp add: run_def main_nothing_found [OF f])
    have nr: "\<not> reports_counts [found_line 0, no_emails_line]"
      by (simp add: reports_counts_def is_count_line_def found_line_def no_emails_line_def)
    have "\<not> reports_counts (banner cfg @ ftr @ [found_line 0, no_emails_line])"
      unfolding fetch_phase_quiet(4) [OF ev] by (rule nr)
    with r show "run cfg L send = Some (banner cfg @ ftr @ [found_line 0, no_emails_line], 0)
      \<and> \<not> reports_counts (banner cfg @ ftr @ [found_line 0, no_emails_line])"
      by (rule conjI)
  qed
  have e: "fetchAllEmails L = None \<longrightarrow> run cfg L send = None"
    by (simp add: run_def main_def)
  show ?thesis
    using a b c d e by (intro conjI) assumption+
qed

theorem run_exit_status_witness:
  "fetchAllEmails broken_directory
     = Some (fetch_events broken_directory 2 @ [ListUsers 3 perPage],
             Inl (Error (fetch_error_message 3 (AuthError ''upstream timeout''))))
   \<and> map_option snd (run (sample_config False) broken_directory accepting) = Some 1
   \<and> fetchAllEmails tiny_directory
       = Some ([ListUsers 1 perPage, fetched_line 1], Inr [''user2@example.com''])
   \<and> thrown_of (sendBatches (sample_config False) rejecting [''user2@example.com''])
       = Some (Error ''Cannot read properties of null (reading 'message')'')
   \<and> map_option snd (run (sample_config False) tiny_directory rejecting) = Some 1
   \<and> thrown_of (sendBatches (sample_config False) accepting [''user2@example.com'']) = None
   \<and> map_option snd (run (sample_config False) tiny_directory accepting) = Some 0
   \<and> fetchAllEmails empty_directory = Some ([ListUsers 1 perPage], Inr [])
   \<and> map_option snd (run (sample_config False) empty_directory accepting) = Some 0
   \<and> fetchAllEmails endless_directory = None
   \<and> run (sample_config False) endless_directory accepting = None"
proof -
  let ?cfg = "sample_config False"
  note broken = fetch_broken_directory
  note tiny = fetch_tiny_directory
  note empty = fetch_empty_directory
  note rej = sendBatches_rejecting_one
  have endless: "fetchAllEmails endless_directory = None"
    by (rule fetch_never_returns) (simp add: endless_directory_def page_full_def perPage_def)
  have ne: "[''user2@example.com''] \<noteq> []"
    by simp
  from sample_completes(2) [of "[''user2@example.com'']"]
  obtain st where st: "sendBatches ?cfg accepting [''user2@example.com''] = Inr st"
    using sendBatches_ends [of ?cfg accepting "[''user2@example.com'']"] by blast
  have a: "map_option snd (run ?cfg broken_directory accepting) = Some 1"
    using run_exit_status
            [of broken_directory "fetch_events broken_directory 2 @ [ListUsers 3 perPage]"
                "Error (fetch_error_message 3 (AuthError ''upstream timeout''))"
                ?cfg accepting, THEN conjunct1]
          broken
    by simp
  have b: "map_option snd (run ?cfg tiny_directory rejecting) = Some 1"
    using run_exit_status
            [of tiny_directory "[ListUsers 1 perPage, fetched_line 1]"
                "Error ''Cannot read properties of null (reading 'message')''"
                ?cfg rejecting "[''user2@example.com'']"
                "[BatchSend (payload ?cfg [''user2@example.com''] 0)]",
             THEN conjunct2, THEN conjunct1]
          tiny ne rej
    by simp
  have b': "thrown_of (sendBatches ?cfg rejecting [''user2@example.com''])
       = Some (Error ''Cannot read properties of null (reading 'message')'')"
    by (simp add: rej thrown_of_def)
  have c: "map_option snd (run ?cfg tiny_directory accepting) = Some 0"
    using run_exit_status
            [of tiny_directory "[ListUsers 1 perPage, fetched_line 1]" _
                ?cfg accepting "[''user2@example.com'']" _ st,
             THEN conjunct2, THEN conjunct2, THEN conjunct1]
          tiny ne st
    by simp
  have c': "thrown_of (sendBatches ?cfg accepting [''user2@example.com'']) = None"
    by (simp add: st thrown_of_def)
  have d: "map_option snd (run ?cfg empty_directory accepting) = Some 0"
    using run_exit_status
            [of empty_directory "[ListUsers 1 perPage]" _ ?cfg accepting,
             THEN conjunct2, THEN conjunct2, THEN conjunct2, THEN conjunct1]
          empty
    by simp
  have e: "run ?cfg endless_directory accepting = None"
    using run_exit_status
            [of endless_directory _ _ ?cfg accepting,
             THEN conjunct2, THEN conjunct2, THEN conjunct2, THEN conjunct2]
          endless
    by simp
  show ?thesis
    using broken a tiny b' b c' c empty d endless e by (intro conjI) assumption+
qed

text \<open>
  \<^bold>\<open>C10.\<close> On the empty recipient list \<^verbatim>\<open>sendBatches\<close> returns \<open>sent = 0\<close> and \<open>failed = 0\<close>; it
  does nothing on the way: no batch, no call to the sender, no pause, no output. And when
  the fetch returns the empty list, \<^verbatim>\<open>main\<close> returns right after the notice that no emails
  were found: the line that announces the dispatch is never printed, and the run contains
  no call to the sender, no pause and no count.
\<close>

theorem sendBatches_empty:
  "(\<exists>st. sendBatches cfg send [] = Inr st
      \<and> sent st = 0 \<and> failed st = 0 \<and> batches st = [] \<and> calls st = 0 \<and> trace st = []
      \<and> send_calls (trace st) = [] \<and> pauses (trace st) = [])
   \<and> (fetchAllEmails L = Some (ftr, Inr []) \<longrightarrow>
        main cfg L send = Some (banner cfg @ ftr @ [found_line 0, no_emails_line], Inr ())
        \<and> sending_line \<notin> set (banner cfg @ ftr @ [found_line 0, no_emails_line])
        \<and> send_calls (banner cfg @ ftr @ [found_line 0, no_emails_line]) = []
        \<and> pauses (banner cfg @ ftr @ [found_line 0, no_emails_line]) = []
        \<and> \<not> reports_counts (banner cfg @ ftr @ [found_line 0, no_emails_line]))"
proof -
  have a: "\<exists>st. sendBatches cfg send [] = Inr st
      \<and> sent st = 0 \<and> failed st = 0 \<and> batches st = [] \<and> calls st = 0 \<and> trace st = []
      \<and> send_calls (trace st) = [] \<and> pauses (trace st) = []"
    by (simp add: sendBatches_Nil dispatch_init_def send_calls_def pauses_def)
  have b: "fetchAllEmails L = Some (ftr, Inr []) \<longrightarrow>
        main cfg L send = Some (banner cfg @ ftr @ [found_line 0, no_emails_line], Inr ())
        \<and> sending_line \<notin> set (banner cfg @ ftr @ [found_line 0, no_emails_line])
        \<and> send_calls (banner cfg @ ftr @ [found_line 0, no_emails_line]) = []
        \<and> pauses (banner cfg @ ftr @ [found_line 0, no_emails_line]) = []
        \<and> \<not> reports_counts (banner cfg @ ftr @ [found_line 0, no_emails_line])"
  proof
    assume f: "fetchAllEmails L = Some (ftr, Inr [])"
    then have ev: "list_all is_fetch_event ftr"
      by (rule fetchAllEmails_events)
    let ?rest = "[found_line 0, no_emails_line]"
    have rest: "sending_line \<notin> set ?rest" "send_calls ?rest = []" "pauses ?rest = []"
      "\<not> reports_counts ?rest"
      by (simp_all add: sending_line_def found_line_def no_emails_line_def send_calls_def
            pauses_def reports_counts_def is_count_line_def)
    note m = main_nothing_found [OF f, of cfg send]
    have s: "sending_line \<notin> set (banner cfg @ ftr @ ?rest)"
      unfolding fetch_phase_quiet(3) [OF ev] by (rule rest(1))
    have c: "send_calls (banner cfg @ ftr @ ?rest) = []"
      unfolding fetch_phase_quiet(1) [OF ev] by (rule rest(2))
    have p: "pauses (banner cfg @ ftr @ ?rest) = []"
      unfolding fetch_phase_quiet(2) [OF ev] by (rule rest(3))
    have r: "\<not> reports_counts (banner cfg @ ftr @ ?rest)"
      unfolding fetch_phase_quiet(4) [OF ev] by (rule rest(4))
    show "main cfg L send = Some (banner cfg @ ftr @ ?rest, Inr ())
        \<and> sending_line \<notin> set (banner cfg @ ftr @ ?rest)
        \<and> send_calls (banner cfg @ ftr @ ?rest) = []
        \<and> pauses (banner cfg @ ftr @ ?rest) = []
        \<and> \<not> reports_counts (banner cfg @ ftr @ ?rest)"
      using m s c p r by (intro conjI) assumption+
  qed
  show ?thesis
    using a b by (intro conjI) assumption+
qed

theorem sendBatches_empty_witness:
  "fetchAllEmails empty_directory = Some ([ListUsers 1 perPage], Inr [])
   \<and> main (sample_config False) empty_directory rejecting
       = Some (banner (sample_config False) @ [ListUsers 1 perPage] @ [found_line 0, no_emails_line],
               Inr ())
   \<and> counters_of (sendBatches (sample_config False) rejecting []) = Some (0, 0)
   \<and> events_of (sendBatches (sample_config False) rejecting []) = []"
proof -
  note inst = sendBatches_empty
    [of "sample_config False" rejecting empty_directory "[ListUsers 1 perPage]"]
  have m: "main (sample_config False) empty_directory rejecting
       = Some (banner (sample_config False) @ [ListUsers 1 perPage] @ [found_line 0, no_emails_line],
               Inr ())"
    using mp [OF inst [THEN conjunct2] fetch_empty_directory] by (rule conjunct1)
  from inst [THEN conjunct1] obtain st
    where "sendBatches (sample_config False) rejecting [] = Inr st" "sent st = 0" "failed st = 0"
      "trace st = []"
    by blast
  then have c: "counters_of (sendBatches (sample_config False) rejecting []) = Some (0, 0)"
    and e: "events_of (sendBatches (sample_config False) rejecting []) = []"
    by (simp_all add: counters_of_def events_of_def)
  show ?thesis
    using fetch_empty_directory m c e by (intro conjI) assumption+
qed

section \<open>The message renderer\<close>

text \<open>
  \<^bold>\<open>C9.\<close> For every recipient address \<^verbatim>\<open>buildEmail\<close> gives a message with the four fields:
  the configured sender address, the given recipient address, the fixed subject line and
  the fixed body. The messages for two recipients differ in the recipient field only:
  putting the one address into the message built for the other gives the same message.
\<close>

theorem buildEmail_template:
  "msg_from (buildEmail cfg to) = FROM_EMAIL cfg
   \<and> msg_to (buildEmail cfg to) = to
   \<and> msg_subject (buildEmail cfg to) = ''hi from jia :3''
   \<and> msg_html (buildEmail cfg to) = html_template
   \<and> buildEmail cfg to = (buildEmail cfg to')\<lparr>msg_to := to\<rparr>
   \<and> (buildEmail cfg to = buildEmail cfg to' \<longleftrightarrow> to = to')"
  by (auto simp: buildEmail_def)

end
